theory Spec2Isabelle
  imports Main
begin

section \<open>Tokens\<close>

text \<open>
  \<^verbatim>\<open>TokenKind\<close> is a C enumeration, hence an integer type: \<^verbatim>\<open>lexer_lex\<close> stores \<^verbatim>\<open>-1\<close> in a
  variable of this type to mean ``emit nothing''.  The header that declares the enumeration
  is not among the sources, so the enumerators are numbered here in the order in which
  \<^verbatim>\<open>lexer.c\<close> and then \<^verbatim>\<open>parser.c\<close> first name them; nothing below depends on the
  numbers beyond their being distinct and non-negative.  The enumerators \<^verbatim>\<open>CONST\<close> and
  \<^verbatim>\<open>CHAR\<close> are written \<open>CONST_TOK\<close> and \<open>CHAR_TOK\<close>, since the two names are reserved words
  of the term syntax.
\<close>

type_synonym TokenKind = int

named_theorems TokenKind_defs

definition TOK_ILLEGAL :: TokenKind where TOK_ILLEGAL_def [TokenKind_defs]: "TOK_ILLEGAL = 0"
definition TOK_EOF :: TokenKind where TOK_EOF_def [TokenKind_defs]: "TOK_EOF = 1"
definition STRING :: TokenKind where STRING_def [TokenKind_defs]: "STRING = 2"
definition IDENTIFIER :: TokenKind where IDENTIFIER_def [TokenKind_defs]: "IDENTIFIER = 3"
definition INTEGER :: TokenKind where INTEGER_def [TokenKind_defs]: "INTEGER = 4"
definition SEMICOLON :: TokenKind where SEMICOLON_def [TokenKind_defs]: "SEMICOLON = 5"
definition COMMA :: TokenKind where COMMA_def [TokenKind_defs]: "COMMA = 6"
definition BACKSLASH :: TokenKind where BACKSLASH_def [TokenKind_defs]: "BACKSLASH = 7"
definition LSQUAREBRACK :: TokenKind where LSQUAREBRACK_def [TokenKind_defs]: "LSQUAREBRACK = 8"
definition RSQUAREBRACK :: TokenKind where RSQUAREBRACK_def [TokenKind_defs]: "RSQUAREBRACK = 9"
definition LBRACE :: TokenKind where LBRACE_def [TokenKind_defs]: "LBRACE = 10"
definition RBRACE :: TokenKind where RBRACE_def [TokenKind_defs]: "RBRACE = 11"
definition LPAREN :: TokenKind where LPAREN_def [TokenKind_defs]: "LPAREN = 12"
definition RPAREN :: TokenKind where RPAREN_def [TokenKind_defs]: "RPAREN = 13"
definition EQUALS_EQUALS :: TokenKind where EQUALS_EQUALS_def [TokenKind_defs]: "EQUALS_EQUALS = 14"
definition EQUALS_ARROW :: TokenKind where EQUALS_ARROW_def [TokenKind_defs]: "EQUALS_ARROW = 15"
definition EQUALS :: TokenKind where EQUALS_def [TokenKind_defs]: "EQUALS = 16"
definition PLUS_PLUS :: TokenKind where PLUS_PLUS_def [TokenKind_defs]: "PLUS_PLUS = 17"
definition PLUS_EQUALS :: TokenKind where PLUS_EQUALS_def [TokenKind_defs]: "PLUS_EQUALS = 18"
definition PLUS :: TokenKind where PLUS_def [TokenKind_defs]: "PLUS = 19"
definition MINUS_MINUS :: TokenKind where MINUS_MINUS_def [TokenKind_defs]: "MINUS_MINUS = 20"
definition MINUS_EQUALS :: TokenKind where MINUS_EQUALS_def [TokenKind_defs]: "MINUS_EQUALS = 21"
definition RARROW :: TokenKind where RARROW_def [TokenKind_defs]: "RARROW = 22"
definition MINUS :: TokenKind where MINUS_def [TokenKind_defs]: "MINUS = 23"
definition MULT_MULT :: TokenKind where MULT_MULT_def [TokenKind_defs]: "MULT_MULT = 24"
definition MULT_EQUALS :: TokenKind where MULT_EQUALS_def [TokenKind_defs]: "MULT_EQUALS = 25"
definition MULT :: TokenKind where MULT_def [TokenKind_defs]: "MULT = 26"
definition SLASH_EQUALS :: TokenKind where SLASH_EQUALS_def [TokenKind_defs]: "SLASH_EQUALS = 27"
definition SLASH :: TokenKind where SLASH_def [TokenKind_defs]: "SLASH = 28"
definition HASH_SIGN :: TokenKind where HASH_SIGN_def [TokenKind_defs]: "HASH_SIGN = 29"
definition EXCLAMATION_EQUALS :: TokenKind where EXCLAMATION_EQUALS_def [TokenKind_defs]: "EXCLAMATION_EQUALS = 30"
definition MOD_MOD :: TokenKind where MOD_MOD_def [TokenKind_defs]: "MOD_MOD = 31"
definition MOD_EQUALS :: TokenKind where MOD_EQUALS_def [TokenKind_defs]: "MOD_EQUALS = 32"
definition MOD :: TokenKind where MOD_def [TokenKind_defs]: "MOD = 33"
definition AND_AND :: TokenKind where AND_AND_def [TokenKind_defs]: "AND_AND = 34"
definition AND_NOT :: TokenKind where AND_NOT_def [TokenKind_defs]: "AND_NOT = 35"
definition AND_EQUALS :: TokenKind where AND_EQUALS_def [TokenKind_defs]: "AND_EQUALS = 36"
definition AND :: TokenKind where AND_def [TokenKind_defs]: "AND = 37"
definition OR_OR :: TokenKind where OR_OR_def [TokenKind_defs]: "OR_OR = 38"
definition OR_EQUALS :: TokenKind where OR_EQUALS_def [TokenKind_defs]: "OR_EQUALS = 39"
definition OR :: TokenKind where OR_def [TokenKind_defs]: "OR = 40"
definition XOR_EQUALS :: TokenKind where XOR_EQUALS_def [TokenKind_defs]: "XOR_EQUALS = 41"
definition XOR :: TokenKind where XOR_def [TokenKind_defs]: "XOR = 42"
definition LESS_THAN_OR_EQUAL_TO :: TokenKind where LESS_THAN_OR_EQUAL_TO_def [TokenKind_defs]: "LESS_THAN_OR_EQUAL_TO = 43"
definition LARROW :: TokenKind where LARROW_def [TokenKind_defs]: "LARROW = 44"
definition LBITSHIFT_EQUALS :: TokenKind where LBITSHIFT_EQUALS_def [TokenKind_defs]: "LBITSHIFT_EQUALS = 45"
definition LBITSHIFT :: TokenKind where LBITSHIFT_def [TokenKind_defs]: "LBITSHIFT = 46"
definition LESS_THAN :: TokenKind where LESS_THAN_def [TokenKind_defs]: "LESS_THAN = 47"
definition GREATER_THAN_OR_EQUAL_TO :: TokenKind where GREATER_THAN_OR_EQUAL_TO_def [TokenKind_defs]: "GREATER_THAN_OR_EQUAL_TO = 48"
definition RBITSHIFT_EQUALS :: TokenKind where RBITSHIFT_EQUALS_def [TokenKind_defs]: "RBITSHIFT_EQUALS = 49"
definition RBITSHIFT :: TokenKind where RBITSHIFT_def [TokenKind_defs]: "RBITSHIFT = 50"
definition GREATER_THAN :: TokenKind where GREATER_THAN_def [TokenKind_defs]: "GREATER_THAN = 51"
definition TILDA_EQUALS :: TokenKind where TILDA_EQUALS_def [TokenKind_defs]: "TILDA_EQUALS = 52"
definition TILDA :: TokenKind where TILDA_def [TokenKind_defs]: "TILDA = 53"
definition ELLIPSIS :: TokenKind where ELLIPSIS_def [TokenKind_defs]: "ELLIPSIS = 54"
definition DDOT :: TokenKind where DDOT_def [TokenKind_defs]: "DDOT = 55"
definition DOT :: TokenKind where DOT_def [TokenKind_defs]: "DOT = 56"
definition COLON_COLON :: TokenKind where COLON_COLON_def [TokenKind_defs]: "COLON_COLON = 57"
definition COLON :: TokenKind where COLON_def [TokenKind_defs]: "COLON = 58"
definition QUESTION :: TokenKind where QUESTION_def [TokenKind_defs]: "QUESTION = 59"
definition MACRO :: TokenKind where MACRO_def [TokenKind_defs]: "MACRO = 60"
definition FUNC :: TokenKind where FUNC_def [TokenKind_defs]: "FUNC = 61"
definition EXPORT :: TokenKind where EXPORT_def [TokenKind_defs]: "EXPORT = 62"
definition MUTABLE :: TokenKind where MUTABLE_def [TokenKind_defs]: "MUTABLE = 63"
definition CONST_TOK :: TokenKind where CONST_TOK_def [TokenKind_defs]: "CONST_TOK = 64"
definition DEFER :: TokenKind where DEFER_def [TokenKind_defs]: "DEFER = 65"
definition IF :: TokenKind where IF_def [TokenKind_defs]: "IF = 66"
definition ELSE :: TokenKind where ELSE_def [TokenKind_defs]: "ELSE = 67"
definition INLINE :: TokenKind where INLINE_def [TokenKind_defs]: "INLINE = 68"
definition BREAK :: TokenKind where BREAK_def [TokenKind_defs]: "BREAK = 69"
definition CONTINUE :: TokenKind where CONTINUE_def [TokenKind_defs]: "CONTINUE = 70"
definition RETURN :: TokenKind where RETURN_def [TokenKind_defs]: "RETURN = 71"
definition MATCH :: TokenKind where MATCH_def [TokenKind_defs]: "MATCH = 72"
definition CHAR_TOK :: TokenKind where CHAR_TOK_def [TokenKind_defs]: "CHAR_TOK = 73"
definition FLOAT_LIT :: TokenKind where FLOAT_LIT_def [TokenKind_defs]: "FLOAT_LIT = 74"
definition TOK_TRUE :: TokenKind where TOK_TRUE_def [TokenKind_defs]: "TOK_TRUE = 75"
definition UNREACHABLE :: TokenKind where UNREACHABLE_def [TokenKind_defs]: "UNREACHABLE = 76"

record Token =
  kind :: TokenKind
  tok_offset :: nat
  tok_colno :: nat
  tok_lineno :: nat
  tok_fname :: string
  "value" :: string

section \<open>The lexer (\<^verbatim>\<open>hazel/compiler/lexer/lexer.c\<close>)\<close>

text \<open>
  The token array of the C structure is a list here: the \<^verbatim>\<open>num_tokens\<close> tokens stored so far,
  so \<^verbatim>\<open>num_tokens\<close> is its length.  \<open>tokenList_cap\<close> is the field of the structure.
  \<open>tokenList_size\<close> is the number of tokens that the block behind \<^verbatim>\<open>lexer->tokenList\<close> has
  room for; in C the allocator knows it, \<^verbatim>\<open>calloc\<close> and \<^verbatim>\<open>realloc\<close> set it, and a store
  into the array is inside the block only below it.
\<close>

record Lexer =
  buffer :: string
  buffer_capacity :: nat
  offset :: nat
  tokenList :: "Token list"
  tokenList_cap :: nat
  tokenList_size :: nat
  lineno :: nat
  colno :: nat
  fname :: string
  is_inside_str :: bool

text \<open>
  What the C code can do besides returning: read or write outside a block of memory (undefined
  behaviour in C, a fault here) and fail one of its \<^verbatim>\<open>CSTL_CHECK\<close> assertions.  A loop that
  never ends is the value \<open>None\<close> of the functions that return an option.
\<close>

datatype fault = OutOfBounds | CheckFailed

text \<open>One line written to \<^verbatim>\<open>stderr\<close> by \<^verbatim>\<open>lexer_lex\<close>: the character, file, line, column.\<close>

datatype diagnostic = SyntaxError_InvalidCharacter char string nat nat

definition nullchar :: char where
  "nullchar = CHR 0x00"

text \<open>
  What the lexer takes from headers that are not among the sources; every function that
  depends on one of them has the parameter \<open>H\<close>.

    \<^item> \<^verbatim>\<open>token_toString\<close>, the function that gives a token kind its text;

    \<^item> \<^verbatim>\<open>TOKENLIST_ALLOC_SIZE\<close>, the number of tokens of the first block of the token array
      and the step of \<^verbatim>\<open>tokenList_cap\<close>;

    \<^item> \<^verbatim>\<open>MAX_TOKEN_SIZE\<close>, the number of bytes of the block that receives the text of an
      identifier or a string;

    \<^item> \<^verbatim>\<open>CSTL_CHECK_NULL\<close>, the assertion that \<^verbatim>\<open>lexer_tokenlist_append\<close> makes about the
      pointer it gets from \<^verbatim>\<open>realloc\<close>: the argument says whether the pointer is null, the
      result whether the program goes on.  Its name asks for a null pointer, its message and
      the store behind it for one that is not null, so the verdict is left open.

  The other assertions are read as their names say (\<^verbatim>\<open>CSTL_CHECK_EQ\<close>, \<^verbatim>\<open>CSTL_CHECK_NE\<close>,
  \<^verbatim>\<open>CSTL_CHECK_NOT_NULL\<close>), and every \<^verbatim>\<open>calloc\<close> and \<^verbatim>\<open>realloc\<close> returns a block: the model
  does not run out of memory.
\<close>

record headers =
  token_toString :: "TokenKind \<Rightarrow> string"
  TOKENLIST_ALLOC_SIZE :: nat
  MAX_TOKEN_SIZE :: nat
  CSTL_CHECK_NULL :: "bool \<Rightarrow> bool"

text \<open>
  \<^verbatim>\<open>strlen\<close>: the buffer handed to \<^verbatim>\<open>lexer_init\<close> is a C string, which ends at its first
  NUL character.  The model keeps the characters before it; index \<^verbatim>\<open>buffer_capacity\<close> of
  the C array holds the terminator.
\<close>

definition lexer_init :: "headers \<Rightarrow> string \<Rightarrow> Lexer" where
  "lexer_init H buf =
     \<lparr> buffer = takeWhile (\<lambda>c. c \<noteq> nullchar) buf,
       buffer_capacity = length (takeWhile (\<lambda>c. c \<noteq> nullchar) buf),
       offset = 0,
       tokenList = [],
       tokenList_cap = TOKENLIST_ALLOC_SIZE H,
       tokenList_size = TOKENLIST_ALLOC_SIZE H,
       lineno = 1,
       colno = 1,
       fname = [],
       is_inside_str = False \<rparr>"

text \<open>
  The macros of \<^verbatim>\<open>lexer.h\<close>, which is not among the sources, are modelled by what their
  names say.  \<^verbatim>\<open>LEXER_INCREMENT_OFFSET\<close> moves the offset and the column together (a
  commented-out line of \<^verbatim>\<open>lexer_lex\<close> names \<^verbatim>\<open>LEXER_INCREMENT_OFFSET_ONLY\<close> for the variant
  that leaves the column alone).
\<close>

definition LEXER_INCREMENT_COLNO :: "Lexer \<Rightarrow> Lexer" where
  "LEXER_INCREMENT_COLNO lx = lx\<lparr>colno := colno lx + 1\<rparr>"

definition LEXER_INCREMENT_OFFSET :: "Lexer \<Rightarrow> Lexer" where
  "LEXER_INCREMENT_OFFSET lx = lx\<lparr>offset := offset lx + 1, colno := colno lx + 1\<rparr>"

definition LEXER_INCREMENT_LINENO :: "Lexer \<Rightarrow> Lexer" where
  "LEXER_INCREMENT_LINENO lx = lx\<lparr>lineno := lineno lx + 1\<rparr>"

text \<open>
  Modelled from the spec: \<^verbatim>\<open>LEXER_RESET_COLNO\<close> is a macro of the missing \<^verbatim>\<open>lexer.h\<close>; the
  spec has 1-based columns that start at 1 and are reset at a newline.
\<close>

definition LEXER_RESET_COLNO :: "Lexer \<Rightarrow> Lexer" where
  "LEXER_RESET_COLNO lx = lx\<lparr>colno := 1\<rparr>"

text \<open>
  A read of the C array \<^verbatim>\<open>lexer->buffer\<close> at an index: a character of the string, the
  terminator just behind it, or an access outside the array.
\<close>

definition buffer_at :: "Lexer \<Rightarrow> nat \<Rightarrow> fault + char" where
  "buffer_at lx i =
     (if i < length (buffer lx) then Inr (buffer lx ! i)
      else if i = length (buffer lx) then Inr nullchar
      else Inl OutOfBounds)"

definition LEXER_CURR_CHAR :: "Lexer \<Rightarrow> fault + char" where
  "LEXER_CURR_CHAR lx = buffer_at lx (offset lx)"

text \<open>
  Modelled from the spec: \<^verbatim>\<open>isLetter\<close> and \<^verbatim>\<open>isDigit\<close> are not among the sources; the spec
  has identifiers accumulate ASCII letters, digits and the underscore.
\<close>

definition ALPHA :: "char \<Rightarrow> bool" where
  "ALPHA c \<longleftrightarrow> c \<in> set ''abcdefghijklmnopqrstuvwxyzABCDEFGHIJKLMNOPQRSTUVWXYZ''"

definition DIGIT_NON_ZERO :: "char \<Rightarrow> bool" where
  "DIGIT_NON_ZERO c \<longleftrightarrow> c \<in> set ''123456789''"

definition isLetter :: "char \<Rightarrow> bool" where
  "isLetter c \<longleftrightarrow> ALPHA c \<or> c = CHR ''_''"

definition isDigit :: "char \<Rightarrow> bool" where
  "isDigit c \<longleftrightarrow> c = CHR ''0'' \<or> DIGIT_NON_ZERO c"

text \<open>
  Modelled from the spec: \<^verbatim>\<open>substr(dest, src, start, len)\<close> is not among the sources; it
  yields the \<open>len\<close> characters of \<open>src\<close> from index \<open>start\<close> on (the spec's ``textual slice
  of the source'').  A slice that does not lie inside the string is a read outside it.  The
  destination is a block of \<open>dest_size\<close> bytes that \<^verbatim>\<open>calloc\<close> has cleared: the \<open>len\<close>
  characters and the NUL that ends them lie inside it when \<open>len < dest_size\<close>, and a longer
  slice is a write outside it.
\<close>

definition substr :: "nat \<Rightarrow> string \<Rightarrow> int \<Rightarrow> int \<Rightarrow> fault + string" where
  "substr dest_size src start len =
     (if 0 \<le> start \<and> 0 \<le> len \<and> start + len \<le> int (length src) \<and> len < int dest_size
      then Inr (take (nat len) (drop (nat start) src))
      else Inl OutOfBounds)"

subsection \<open>Moving through the buffer\<close>

definition lexer_advance :: "Lexer \<Rightarrow> char \<times> Lexer" where
  "lexer_advance lx =
     (if offset lx \<ge> buffer_capacity lx then (nullchar, lx)
      else (buffer lx ! offset lx, (LEXER_INCREMENT_COLNO lx)\<lparr>offset := offset lx + 1\<rparr>))"

definition lexer_advancen :: "Lexer \<Rightarrow> nat \<Rightarrow> char \<times> Lexer" where
  "lexer_advancen lx n =
     (if offset lx + n \<ge> buffer_capacity lx then (nullchar, lx)
      else (buffer lx ! (offset lx + n), lx\<lparr>colno := colno lx + n, offset := offset lx + n\<rparr>))"

definition lexer_peek :: "Lexer \<Rightarrow> fault + char" where
  "lexer_peek lx = buffer_at lx (offset lx)"

subsection \<open>Making tokens\<close>

text \<open>
  The last statement of \<^verbatim>\<open>lexer_tokenlist_append\<close>, the store
  \<^verbatim>\<open>lexer->tokenList[lexer->num_tokens++] = *token\<close>: it is a write behind the block when the
  block has no room left.
\<close>

definition tokenList_store :: "Lexer \<Rightarrow> Token \<Rightarrow> fault + Lexer" where
  "tokenList_store lx token =
     (if length (tokenList lx) < tokenList_size lx
      then Inr (lx\<lparr>tokenList := tokenList lx @ [token]\<rparr>)
      else Inl OutOfBounds)"

text \<open>
  When \<^verbatim>\<open>num_tokens\<close> has reached \<^verbatim>\<open>tokenList_cap\<close>, the array is moved to a block of
  \<^verbatim>\<open>2 * TOKENLIST_ALLOC_SIZE\<close> tokens, whatever its size was, the pointer is checked, and the
  capacity grows by \<^verbatim>\<open>TOKENLIST_ALLOC_SIZE\<close>.  \<^verbatim>\<open>realloc\<close> keeps the tokens that fit into the
  new block; when some do not fit, the store that follows is outside the block in the code and
  in the model.
\<close>

definition lexer_tokenlist_append :: "headers \<Rightarrow> Lexer \<Rightarrow> Token \<Rightarrow> fault + Lexer" where
  "lexer_tokenlist_append H lx token =
     (if length (tokenList lx) \<ge> tokenList_cap lx
      then (if CSTL_CHECK_NULL H False
            then tokenList_store
                   (lx\<lparr>tokenList_size := 2 * TOKENLIST_ALLOC_SIZE H,
                       tokenList_cap := tokenList_cap lx + TOKENLIST_ALLOC_SIZE H\<rparr>) token
            else Inl CheckFailed)
      else tokenList_store lx token)"

text \<open>
  The warning that \<^verbatim>\<open>lexer_maketoken\<close> prints for a \<^verbatim>\<open>STRING\<close> kind changes nothing and is
  left out.
\<close>

definition lexer_maketoken :: "headers \<Rightarrow> Lexer \<Rightarrow> TokenKind \<Rightarrow> fault + Lexer" where
  "lexer_maketoken H lx k =
     lexer_tokenlist_append H lx
       \<lparr> kind = k, tok_offset = offset lx, tok_colno = colno lx, tok_lineno = lineno lx,
         tok_fname = fname lx, value = token_toString H k \<rparr>"

definition lexer_makestrtoken :: "headers \<Rightarrow> Lexer \<Rightarrow> string \<Rightarrow> fault + Lexer" where
  "lexer_makestrtoken H lx str_value =
     lexer_tokenlist_append H lx
       \<lparr> kind = STRING, tok_offset = offset lx, tok_colno = colno lx, tok_lineno = lineno lx,
         tok_fname = fname lx, value = str_value \<rparr>"

definition lexer_makeidenttoken :: "headers \<Rightarrow> Lexer \<Rightarrow> string \<Rightarrow> fault + Lexer" where
  "lexer_makeidenttoken H lx ident_value =
     lexer_tokenlist_append H lx
       \<lparr> kind = IDENTIFIER, tok_offset = offset lx, tok_colno = colno lx, tok_lineno = lineno lx,
         tok_fname = fname lx, value = ident_value \<rparr>"

subsection \<open>Comments\<close>

text \<open>
  Every scanning loop of the lexer ends for the same reason: a round either moves the offset
  towards the capacity, or \<^verbatim>\<open>lexer_advance\<close> has returned the NUL character.
\<close>

definition scan_measure :: "Lexer \<Rightarrow> char \<Rightarrow> nat" where
  "scan_measure lx ch = 2 * (buffer_capacity lx - offset lx) + (if ch = nullchar then 0 else 1)"

function lexer_lex_sl_comment_loop :: "Lexer \<Rightarrow> char \<Rightarrow> Lexer" where
  "lexer_lex_sl_comment_loop lx ch =
     (if ch \<noteq> nullchar \<and> ch \<noteq> CHR 0x0A
      then lexer_lex_sl_comment_loop (snd (lexer_advance lx)) (fst (lexer_advance lx))
      else lx)"
  by pat_completeness auto
termination
  by (relation "measure (\<lambda>(lx, ch). scan_measure lx ch)")
     (auto simp: scan_measure_def lexer_advance_def LEXER_INCREMENT_COLNO_def)

declare lexer_lex_sl_comment_loop.simps [simp del]

definition lexer_lex_sl_comment :: "Lexer \<Rightarrow> Lexer" where
  "lexer_lex_sl_comment lx =
     lexer_lex_sl_comment_loop (snd (lexer_advance lx)) (fst (lexer_advance lx))"

text \<open>The inner loop of \<^verbatim>\<open>lexer_lex_ml_comment\<close>: skip to the next asterisk.\<close>

function lexer_lex_ml_comment_skip :: "Lexer \<Rightarrow> char \<Rightarrow> char \<times> Lexer" where
  "lexer_lex_ml_comment_skip lx ch =
     (if ch \<noteq> nullchar \<and> ch \<noteq> CHR ''*''
      then lexer_lex_ml_comment_skip (snd (lexer_advance lx)) (fst (lexer_advance lx))
      else (ch, lx))"
  by pat_completeness auto
termination
  by (relation "measure (\<lambda>(lx, ch). scan_measure lx ch)")
     (auto simp: scan_measure_def lexer_advance_def LEXER_INCREMENT_COLNO_def)

declare lexer_lex_ml_comment_skip.simps [simp del]

text \<open>
  The outer loop, on the state \<open>(lexer, ch, asterisk_found)\<close>.  One round: clear the flag,
  skip to an asterisk, set the flag if one was found, read one more character.
\<close>

definition lexer_lex_ml_comment_round :: "Lexer \<Rightarrow> char \<Rightarrow> char \<times> Lexer \<times> bool" where
  "lexer_lex_ml_comment_round lx ch =
     (case lexer_lex_ml_comment_skip lx ch of
        (ch1, lx1) \<Rightarrow> (fst (lexer_advance lx1), snd (lexer_advance lx1), ch1 = CHR ''*''))"

function lexer_lex_ml_comment_loop :: "Lexer \<Rightarrow> char \<Rightarrow> bool \<Rightarrow> char \<times> Lexer" where
  "lexer_lex_ml_comment_loop lx ch asterisk_found =
     (if ch \<noteq> nullchar \<and> \<not> (ch = CHR ''/'' \<and> asterisk_found)
      then (case lexer_lex_ml_comment_round lx ch of
              (ch2, lx2, found) \<Rightarrow> lexer_lex_ml_comment_loop lx2 ch2 found)
      else (ch, lx))"
  by pat_completeness auto

lemma lexer_advance_capacity [simp]:
  "buffer_capacity (snd (lexer_advance lx)) = buffer_capacity lx"
  by (simp add: lexer_advance_def LEXER_INCREMENT_COLNO_def)

lemma lexer_advance_offset_mono: "offset lx \<le> offset (snd (lexer_advance lx))"
  by (simp add: lexer_advance_def LEXER_INCREMENT_COLNO_def)

lemma lexer_lex_ml_comment_skip_capacity [simp]:
  "buffer_capacity (snd (lexer_lex_ml_comment_skip lx ch)) = buffer_capacity lx"
proof (induction lx ch rule: lexer_lex_ml_comment_skip.induct)
  case (1 lx ch)
  then show ?case
    by (subst lexer_lex_ml_comment_skip.simps) simp
qed

lemma lexer_lex_ml_comment_skip_offset_mono:
  "offset lx \<le> offset (snd (lexer_lex_ml_comment_skip lx ch))"
proof (induction lx ch rule: lexer_lex_ml_comment_skip.induct)
  case (1 lx ch)
  show ?case
  proof (cases "ch \<noteq> nullchar \<and> ch \<noteq> CHR ''*''")
    case True
    with 1 have "offset (snd (lexer_advance lx))
                   \<le> offset (snd (lexer_lex_ml_comment_skip lx ch))"
      by (subst lexer_lex_ml_comment_skip.simps) simp
    with lexer_advance_offset_mono [of lx] show ?thesis
      by linarith
  next
    case False
    then show ?thesis
      by (subst lexer_lex_ml_comment_skip.simps) auto
  qed
qed

lemma lexer_lex_ml_comment_round_measure:
  assumes "ch \<noteq> nullchar" and "(ch2, lx2, found) = lexer_lex_ml_comment_round lx ch"
  shows "scan_measure lx2 ch2 < scan_measure lx ch"
proof -
  obtain ch1 lx1 where skip: "lexer_lex_ml_comment_skip lx ch = (ch1, lx1)"
    by (cases "lexer_lex_ml_comment_skip lx ch")
  have cap: "buffer_capacity lx1 = buffer_capacity lx"
    using lexer_lex_ml_comment_skip_capacity [of lx ch] skip by simp
  have off: "offset lx \<le> offset lx1"
    using lexer_lex_ml_comment_skip_offset_mono [of lx ch] skip by simp
  have res: "ch2 = fst (lexer_advance lx1)" "lx2 = snd (lexer_advance lx1)"
    using assms(2) skip by (simp_all add: lexer_lex_ml_comment_round_def)
  show ?thesis
  proof (cases "offset lx1 \<ge> buffer_capacity lx1")
    case True
    then have "ch2 = nullchar" "lx2 = lx1"
      by (simp_all add: res lexer_advance_def)
    then show ?thesis
      using assms(1) cap off by (simp add: scan_measure_def)
  next
    case False
    then have "offset lx2 = offset lx1 + 1" "buffer_capacity lx2 = buffer_capacity lx1"
      by (simp_all add: res lexer_advance_def LEXER_INCREMENT_COLNO_def)
    moreover have "offset lx1 < buffer_capacity lx"
      using False cap by simp
    ultimately have "2 * (buffer_capacity lx2 - offset lx2) + 1
                       < 2 * (buffer_capacity lx - offset lx) + 1"
      using cap off by simp
    then show ?thesis
      using assms(1) by (simp add: scan_measure_def)
  qed
qed

termination lexer_lex_ml_comment_loop
proof (relation "measure (\<lambda>(lx, ch, found). scan_measure lx ch)")
  show "wf (measure (\<lambda>(lx, ch, found). scan_measure lx ch))"
    by simp
next
  fix lx :: Lexer and ch ch2 :: char and asterisk_found found :: bool and lx2 rest
  assume "ch \<noteq> nullchar \<and> \<not> (ch = CHR ''/'' \<and> asterisk_found)"
    and "(ch2, rest) = lexer_lex_ml_comment_round lx ch" and "(lx2, found) = rest"
  then have "scan_measure lx2 ch2 < scan_measure lx ch"
    using lexer_lex_ml_comment_round_measure [of ch ch2 lx2 found lx] by simp
  then show "((lx2, ch2, found), lx, ch, asterisk_found)
               \<in> measure (\<lambda>(lx, ch, found). scan_measure lx ch)"
    by simp
qed

declare lexer_lex_ml_comment_loop.simps [simp del]

definition lexer_lex_ml_comment :: "Lexer \<Rightarrow> Lexer" where
  "lexer_lex_ml_comment lx =
     (case lexer_lex_ml_comment_loop (snd (lexer_advance lx)) (fst (lexer_advance lx)) False of
        (ch, lx') \<Rightarrow> snd (lexer_advance lx'))"

subsection \<open>Strings, identifiers, numbers\<close>

text \<open>\<^verbatim>\<open>lexer_lex_esc_char\<close> has an empty body.\<close>

definition lexer_lex_esc_char :: "Lexer \<Rightarrow> Lexer" where
  "lexer_lex_esc_char lx = lx"

text \<open>
  The loop of \<^verbatim>\<open>lexer_lex_string\<close> tests nothing but the closing quote, so it is the one
  loop of the lexer that can run forever: \<open>None\<close> is that outcome.
\<close>

partial_function (option) lexer_lex_string_loop :: "Lexer \<Rightarrow> char \<Rightarrow> (char \<times> Lexer) option" where
  "lexer_lex_string_loop lx ch =
     (if ch \<noteq> CHR 0x22
      then (if ch = CHR 0x5C
            then lexer_lex_string_loop (lexer_lex_esc_char lx) ch
            else lexer_lex_string_loop (snd (lexer_advance lx)) (fst (lexer_advance lx)))
      else Some (ch, lx))"

declare lexer_lex_string_loop.simps [code]

text \<open>
  \<^verbatim>\<open>lexer_lex_string\<close> copies the text of the literal into \<^verbatim>\<open>str_value\<close>, a block of
  \<^verbatim>\<open>MAX_TOKEN_SIZE\<close> bytes.
\<close>

definition lexer_lex_string :: "headers \<Rightarrow> Lexer \<Rightarrow> (fault + Lexer) option" where
  "lexer_lex_string H lx =
     (case LEXER_CURR_CHAR lx of
        Inl f \<Rightarrow> Some (Inl f)
      | Inr c0 \<Rightarrow>
          if c0 = CHR 0x22 then Some (Inl CheckFailed)
          else
            let ch = fst (lexer_advance lx);
                lx1 = snd (lexer_advance lx);
                prev_offset = int (offset lx1) - 1
            in (case lexer_lex_string_loop lx1 ch of
                  None \<Rightarrow> None
                | Some (ch', lx2) \<Rightarrow>
                    if ch' \<noteq> CHR 0x22 then Some (Inl CheckFailed)
                    else
                      let offset_diff = int (offset lx2) - prev_offset
                      in if offset_diff = 0 then Some (Inl CheckFailed)
                         else (case substr (MAX_TOKEN_SIZE H) (buffer lx2) prev_offset
                                      (offset_diff - 1) of
                                 Inl f \<Rightarrow> Some (Inl f)
                               | Inr str_value \<Rightarrow>
                                   Some (lexer_makestrtoken H lx2 str_value))))"

lemma isLetter_nullchar [simp]: "\<not> isLetter nullchar"
  by (simp add: isLetter_def ALPHA_def nullchar_def)

lemma isDigit_nullchar [simp]: "\<not> isDigit nullchar"
  by (simp add: isDigit_def DIGIT_NON_ZERO_def nullchar_def)

function lexer_lex_identifier_loop :: "Lexer \<Rightarrow> char \<Rightarrow> Lexer" where
  "lexer_lex_identifier_loop lx ch =
     (if isLetter ch \<or> isDigit ch
      then lexer_lex_identifier_loop (snd (lexer_advance lx)) (fst (lexer_advance lx))
      else lx)"
  by pat_completeness auto
termination
  by (relation "measure (\<lambda>(lx, ch). scan_measure lx ch)")
     (auto simp: scan_measure_def lexer_advance_def LEXER_INCREMENT_COLNO_def)

declare lexer_lex_identifier_loop.simps [simp del]

text \<open>
  \<^verbatim>\<open>lexer_lex_identifier\<close> copies the lexeme into \<^verbatim>\<open>ident\<close>, a block of \<^verbatim>\<open>MAX_TOKEN_SIZE\<close>
  bytes.
\<close>

definition lexer_lex_identifier :: "headers \<Rightarrow> Lexer \<Rightarrow> fault + Lexer" where
  "lexer_lex_identifier H lx =
     (let ch = fst (lexer_advance lx);
          lx1 = snd (lexer_advance lx);
          prev_offset = int (offset lx1) - 1;
          lx2 = lexer_lex_identifier_loop lx1 ch;
          offset_diff = int (offset lx2) - prev_offset
      in if offset_diff = 0 then Inl CheckFailed
         else case substr (MAX_TOKEN_SIZE H) (buffer lx2) (prev_offset - 1) offset_diff of
                Inl f \<Rightarrow> Inl f
              | Inr ident \<Rightarrow> lexer_makeidenttoken H lx2 ident)"

function lexer_lex_digit_loop :: "Lexer \<Rightarrow> char \<Rightarrow> Lexer" where
  "lexer_lex_digit_loop lx ch =
     (if isDigit ch
      then lexer_lex_digit_loop (snd (lexer_advance lx)) (fst (lexer_advance lx))
      else lx)"
  by pat_completeness auto
termination
  by (relation "measure (\<lambda>(lx, ch). scan_measure lx ch)")
     (auto simp: scan_measure_def lexer_advance_def LEXER_INCREMENT_COLNO_def)

declare lexer_lex_digit_loop.simps [simp del]

definition lexer_lex_digit :: "headers \<Rightarrow> Lexer \<Rightarrow> fault + Lexer" where
  "lexer_lex_digit H lx =
     (case LEXER_CURR_CHAR lx of
        Inl f \<Rightarrow> Inl f
      | Inr ch \<Rightarrow> lexer_maketoken H (lexer_lex_digit_loop lx ch) INTEGER)"

subsection \<open>The main loop\<close>

definition WHITESPACE_NO_NEWLINE :: "char \<Rightarrow> bool" where
  "WHITESPACE_NO_NEWLINE c \<longleftrightarrow> c = CHR '' '' \<or> c = CHR 0x0D \<or> c = CHR 0x09"

text \<open>
  The \<^verbatim>\<open>switch\<close> of \<^verbatim>\<open>lexer_lex\<close>, for a character \<open>curr\<close> other than NUL.  It yields the
  value of \<^verbatim>\<open>tokenkind\<close> at the end of the \<^verbatim>\<open>switch\<close>, the lexer, and what was written to
  \<^verbatim>\<open>stderr\<close>.  \<^verbatim>\<open>tokenkind\<close> is \<^verbatim>\<open>TOK_ILLEGAL\<close> when the \<^verbatim>\<open>switch\<close> begins, and two cases
  leave it so: the empty string literal and the \<^verbatim>\<open>default\<close> case.
\<close>

definition tokenkind_is ::
  "TokenKind \<Rightarrow> Lexer \<Rightarrow> (fault + TokenKind \<times> Lexer \<times> diagnostic list) option" where
  "tokenkind_is k lx = Some (Inr (k, lx, []))"

definition lexer_lex_switch ::
  "headers \<Rightarrow> Lexer \<Rightarrow> char \<Rightarrow> char
     \<Rightarrow> (fault + TokenKind \<times> Lexer \<times> diagnostic list) option" where
  "lexer_lex_switch H lx curr_ch next_ch =
     (if WHITESPACE_NO_NEWLINE curr_ch then tokenkind_is (- 1) lx
      else if curr_ch = CHR 0x0A then
        tokenkind_is (- 1) (LEXER_RESET_COLNO (LEXER_INCREMENT_LINENO lx))
      else if ALPHA curr_ch \<or> curr_ch = CHR ''_'' then
        (case lexer_lex_identifier H lx of
           Inl f \<Rightarrow> Some (Inl f)
         | Inr lx' \<Rightarrow> tokenkind_is (- 1) lx')
      else if DIGIT_NON_ZERO curr_ch then
        (case lexer_lex_digit H lx of
           Inl f \<Rightarrow> Some (Inl f)
         | Inr lx' \<Rightarrow> tokenkind_is (- 1) lx')
      else if curr_ch = CHR 0x22 then
        (if next_ch = CHR 0x22
         then (case lexer_makestrtoken H (LEXER_INCREMENT_OFFSET lx) [CHR 0x22, CHR 0x22] of
                 Inl f \<Rightarrow> Some (Inl f)
               | Inr lx' \<Rightarrow> tokenkind_is TOK_ILLEGAL lx')
         else (case lexer_lex_string H lx of
                 None \<Rightarrow> None
               | Some (Inl f) \<Rightarrow> Some (Inl f)
               | Some (Inr lx') \<Rightarrow> tokenkind_is (- 1) lx'))
      else if curr_ch = CHR '';'' then tokenkind_is SEMICOLON lx
      else if curr_ch = CHR '','' then tokenkind_is COMMA lx
      else if curr_ch = CHR 0x5C then tokenkind_is BACKSLASH lx
      else if curr_ch = CHR ''['' then tokenkind_is LSQUAREBRACK lx
      else if curr_ch = CHR '']'' then tokenkind_is RSQUAREBRACK lx
      else if curr_ch = CHR ''{'' then tokenkind_is LBRACE lx
      else if curr_ch = CHR ''}'' then tokenkind_is RBRACE lx
      else if curr_ch = CHR ''('' then tokenkind_is LPAREN lx
      else if curr_ch = CHR '')'' then tokenkind_is RPAREN lx
      else if curr_ch = CHR ''='' then
        (if next_ch = CHR ''='' then tokenkind_is EQUALS_EQUALS (LEXER_INCREMENT_OFFSET lx)
         else if next_ch = CHR ''>'' then tokenkind_is EQUALS_ARROW (LEXER_INCREMENT_OFFSET lx)
         else tokenkind_is EQUALS lx)
      else if curr_ch = CHR ''+'' then
        (if next_ch = CHR ''+'' then tokenkind_is PLUS_PLUS (LEXER_INCREMENT_OFFSET lx)
         else if next_ch = CHR ''='' then tokenkind_is PLUS_EQUALS (LEXER_INCREMENT_OFFSET lx)
         else tokenkind_is PLUS lx)
      else if curr_ch = CHR ''-'' then
        (if next_ch = CHR ''-'' then tokenkind_is MINUS_MINUS (LEXER_INCREMENT_OFFSET lx)
         else if next_ch = CHR ''='' then tokenkind_is MINUS_EQUALS (LEXER_INCREMENT_OFFSET lx)
         else if next_ch = CHR ''>'' then tokenkind_is RARROW (LEXER_INCREMENT_OFFSET lx)
         else tokenkind_is MINUS lx)
      else if curr_ch = CHR ''*'' then
        (if next_ch = CHR ''*'' then tokenkind_is MULT_MULT (LEXER_INCREMENT_OFFSET lx)
         else if next_ch = CHR ''='' then tokenkind_is MULT_EQUALS (LEXER_INCREMENT_OFFSET lx)
         else tokenkind_is MULT lx)
      else if curr_ch = CHR ''/'' then
        (if next_ch = CHR ''/'' then tokenkind_is (- 1) (lexer_lex_sl_comment lx)
         else if next_ch = CHR ''*'' then tokenkind_is (- 1) (lexer_lex_ml_comment lx)
         else if next_ch = CHR ''='' then tokenkind_is SLASH_EQUALS (LEXER_INCREMENT_OFFSET lx)
         else tokenkind_is SLASH lx)
      else if curr_ch = CHR ''#'' then tokenkind_is HASH_SIGN (LEXER_INCREMENT_OFFSET lx)
      else if curr_ch = CHR ''!'' then
        (if next_ch = CHR ''='' then tokenkind_is EXCLAMATION_EQUALS (LEXER_INCREMENT_OFFSET lx)
         else tokenkind_is MINUS_MINUS lx)
      else if curr_ch = CHR ''%'' then
        (if next_ch = CHR ''%'' then tokenkind_is MOD_MOD (LEXER_INCREMENT_OFFSET lx)
         else if next_ch = CHR ''='' then tokenkind_is MOD_EQUALS (LEXER_INCREMENT_OFFSET lx)
         else tokenkind_is MOD lx)
      else if curr_ch = CHR ''&'' then
        (if next_ch = CHR ''&'' then tokenkind_is AND_AND (LEXER_INCREMENT_OFFSET lx)
         else if next_ch = CHR ''^'' then tokenkind_is AND_NOT (LEXER_INCREMENT_OFFSET lx)
         else if next_ch = CHR ''='' then tokenkind_is AND_EQUALS (LEXER_INCREMENT_OFFSET lx)
         else tokenkind_is AND lx)
      else if curr_ch = CHR ''|'' then
        (if next_ch = CHR ''|'' then tokenkind_is OR_OR (LEXER_INCREMENT_OFFSET lx)
         else if next_ch = CHR ''='' then tokenkind_is OR_EQUALS (LEXER_INCREMENT_OFFSET lx)
         else tokenkind_is OR lx)
      else if curr_ch = CHR ''^'' then
        (if next_ch = CHR ''='' then tokenkind_is XOR_EQUALS (LEXER_INCREMENT_OFFSET lx)
         else tokenkind_is XOR lx)
      else if curr_ch = CHR ''<'' then
        (if next_ch = CHR ''='' then tokenkind_is LESS_THAN_OR_EQUAL_TO (LEXER_INCREMENT_OFFSET lx)
         else if next_ch = CHR ''-'' then tokenkind_is LARROW (LEXER_INCREMENT_OFFSET lx)
         else if next_ch = CHR ''<'' then
           (case lexer_peek (LEXER_INCREMENT_OFFSET lx) of
              Inl f \<Rightarrow> Some (Inl f)
            | Inr c \<Rightarrow>
                if c = CHR ''=''
                then tokenkind_is LBITSHIFT_EQUALS (LEXER_INCREMENT_OFFSET (LEXER_INCREMENT_OFFSET lx))
                else tokenkind_is LBITSHIFT (LEXER_INCREMENT_OFFSET lx))
         else tokenkind_is LESS_THAN lx)
      else if curr_ch = CHR ''>'' then
        (if next_ch = CHR ''='' then tokenkind_is GREATER_THAN_OR_EQUAL_TO (LEXER_INCREMENT_OFFSET lx)
         else if next_ch = CHR ''>'' then
           (case lexer_peek (LEXER_INCREMENT_OFFSET lx) of
              Inl f \<Rightarrow> Some (Inl f)
            | Inr c \<Rightarrow>
                if c = CHR ''=''
                then tokenkind_is RBITSHIFT_EQUALS (LEXER_INCREMENT_OFFSET (LEXER_INCREMENT_OFFSET lx))
                else tokenkind_is RBITSHIFT (LEXER_INCREMENT_OFFSET lx))
         else tokenkind_is GREATER_THAN lx)
      else if curr_ch = CHR ''~'' then
        (if next_ch = CHR ''='' then tokenkind_is TILDA_EQUALS (LEXER_INCREMENT_OFFSET lx)
         else tokenkind_is TILDA lx)
      else if curr_ch = CHR ''.'' then
        (if next_ch = CHR ''.'' then
           (case lexer_peek (LEXER_INCREMENT_OFFSET lx) of
              Inl f \<Rightarrow> Some (Inl f)
            | Inr c \<Rightarrow>
                if c = CHR ''.''
                then tokenkind_is ELLIPSIS (LEXER_INCREMENT_OFFSET (LEXER_INCREMENT_OFFSET lx))
                else tokenkind_is DDOT (LEXER_INCREMENT_OFFSET lx))
         else tokenkind_is DOT lx)
      else if curr_ch = CHR '':'' then
        (if next_ch = CHR '':'' then tokenkind_is COLON_COLON (LEXER_INCREMENT_OFFSET lx)
         else tokenkind_is COLON lx)
      else if curr_ch = CHR ''?'' then tokenkind_is QUESTION lx
      else if curr_ch = CHR ''@'' then tokenkind_is MACRO lx
      else Some (Inr (TOK_ILLEGAL, lx,
                      [SyntaxError_InvalidCharacter curr_ch (fname lx) (lineno lx) (colno lx)])))"

text \<open>The characters that have a \<^verbatim>\<open>case\<close> label in the \<^verbatim>\<open>switch\<close> of \<^verbatim>\<open>lexer_lex\<close>.\<close>

definition has_case :: "char \<Rightarrow> bool" where
  "has_case c \<longleftrightarrow>
     c = nullchar \<or> WHITESPACE_NO_NEWLINE c \<or> c = CHR 0x0A \<or> ALPHA c \<or> c = CHR ''_''
       \<or> DIGIT_NON_ZERO c \<or> c = CHR 0x22 \<or> c = CHR 0x5C
       \<or> c \<in> set '';,[]{}()=+-*/#!%&|^<>~.:?@''"

text \<open>
  One round of the \<^verbatim>\<open>while(true)\<close> loop: read \<open>curr\<close> and \<open>next\<close> (\<^verbatim>\<open>lexer_peek\<close> is
  evaluated before the \<^verbatim>\<open>switch\<close> tests \<open>curr\<close> for NUL), run the \<^verbatim>\<open>switch\<close>, and make the
  token unless \<^verbatim>\<open>tokenkind\<close> is \<^verbatim>\<open>-1\<close>.  The flag of the result is \<open>False\<close> for
  \<^verbatim>\<open>goto lex_eof\<close> and \<open>True\<close> for another round.
\<close>

definition lexer_lex_round ::
  "headers \<Rightarrow> Lexer \<Rightarrow> (fault + bool \<times> Lexer \<times> diagnostic list) option" where
  "lexer_lex_round H lx =
     (case lexer_peek (snd (lexer_advance lx)) of
        Inl f \<Rightarrow> Some (Inl f)
      | Inr next_ch \<Rightarrow>
          if fst (lexer_advance lx) = nullchar
          then Some (Inr (False, snd (lexer_advance lx), []))
          else (case lexer_lex_switch H (snd (lexer_advance lx)) (fst (lexer_advance lx)) next_ch of
                  None \<Rightarrow> None
                | Some (Inl f) \<Rightarrow> Some (Inl f)
                | Some (Inr (tokenkind, lx2, msgs)) \<Rightarrow>
                    if tokenkind = - 1 then Some (Inr (True, lx2, msgs))
                    else (case lexer_maketoken H lx2 tokenkind of
                            Inl f \<Rightarrow> Some (Inl f)
                          | Inr lx3 \<Rightarrow> Some (Inr (True, lx3, msgs)))))"

text \<open>
  The loop, on the lexer and the lines written to \<^verbatim>\<open>stderr\<close> so far, and the statement at
  the label \<^verbatim>\<open>lex_eof\<close>.
\<close>

partial_function (option) lexer_lex_loop ::
  "headers \<Rightarrow> Lexer \<Rightarrow> diagnostic list \<Rightarrow> (fault + Lexer \<times> diagnostic list) option"
where
  "lexer_lex_loop H lx err =
     (case lexer_lex_round H lx of
        None \<Rightarrow> None
      | Some (Inl f) \<Rightarrow> Some (Inl f)
      | Some (Inr (again, lx', msgs)) \<Rightarrow>
          if again then lexer_lex_loop H lx' (err @ msgs)
          else (case lexer_maketoken H lx' TOK_EOF of
                  Inl f \<Rightarrow> Some (Inl f)
                | Inr lxf \<Rightarrow> Some (Inr (lxf, err))))"

declare lexer_lex_loop.simps [code]

definition lexer_lex ::
  "headers \<Rightarrow> Lexer \<Rightarrow> (fault + Lexer \<times> diagnostic list) option" where
  "lexer_lex H lx =
     (if buffer_at lx 0 = Inr (CHR 0xEF) \<and> buffer_at lx 1 = Inr (CHR 0xBB)
         \<and> buffer_at lx 2 = Inr (CHR 0xBF)
      then lexer_lex_loop H (snd (lexer_advancen lx 3)) []
      else lexer_lex_loop H lx [])"

text \<open>Lexing a source text: \<^verbatim>\<open>lexer_init\<close>, then \<^verbatim>\<open>lexer_lex\<close>; the result is the token list.\<close>

definition lex :: "headers \<Rightarrow> string \<Rightarrow> (fault + Token list \<times> diagnostic list) option" where
  "lex H buf =
     (case lexer_lex H (lexer_init H buf) of
        None \<Rightarrow> None
      | Some (Inl f) \<Rightarrow> Some (Inl f)
      | Some (Inr (lx, err)) \<Rightarrow> Some (Inr (tokenList lx, err)))"

text \<open>
  An instance of the missing definitions for the concrete runs below: no text for a token kind,
  room for sixteen tokens and for sixteen bytes of text, and an assertion that does what its
  name says.  The runs make at most five tokens and copy at most seven characters, so they are
  the same for every instance with that much room, whatever its assertion does.
\<close>

definition lexer_h :: headers where
  "lexer_h =
     \<lparr> token_toString = (\<lambda>k. []), TOKENLIST_ALLOC_SIZE = 16, MAX_TOKEN_SIZE = 16,
       CSTL_CHECK_NULL = (\<lambda>is_null. is_null) \<rparr>"

section \<open>Properties of the lexer\<close>

text \<open>
  What a stretch of the lexer's run leaves behind: the tokens it appended, each located where
  the lexer stood when the stretch ended, an offset and a line number that are no smaller, and
  the same buffer.
\<close>

definition made_at :: "Lexer \<Rightarrow> Token \<Rightarrow> bool" where
  "made_at lx t \<longleftrightarrow>
     tok_offset t = offset lx \<and> tok_colno t = colno lx \<and> tok_lineno t = lineno lx
       \<and> tok_fname t = fname lx"

definition scan_adds :: "Lexer \<Rightarrow> Lexer \<Rightarrow> Token list \<Rightarrow> bool" where
  "scan_adds lx lx' ts \<longleftrightarrow>
     tokenList lx' = tokenList lx @ ts \<and> (\<forall>t\<in>set ts. made_at lx' t)
       \<and> offset lx \<le> offset lx' \<and> lineno lx \<le> lineno lx' \<and> buffer lx' = buffer lx
       \<and> buffer_capacity lx' = buffer_capacity lx \<and> fname lx' = fname lx"

lemma scan_adds_refl [simp]: "scan_adds lx lx []"
  by (simp add: scan_adds_def)

lemma scan_adds_Nil_trans:
  "scan_adds lx lx1 [] \<Longrightarrow> scan_adds lx1 lx2 ts \<Longrightarrow> scan_adds lx lx2 ts"
  by (auto simp: scan_adds_def)

lemma scan_adds_advance [simp]: "scan_adds lx (snd (lexer_advance lx)) []"
  by (simp add: scan_adds_def lexer_advance_def LEXER_INCREMENT_COLNO_def)

lemma scan_adds_INCREMENT_OFFSET [simp]: "scan_adds lx (LEXER_INCREMENT_OFFSET lx) []"
  by (simp add: scan_adds_def LEXER_INCREMENT_OFFSET_def)

lemma scan_adds_newline [simp]:
  "scan_adds lx (LEXER_RESET_COLNO (LEXER_INCREMENT_LINENO lx)) []"
  by (simp add: scan_adds_def LEXER_RESET_COLNO_def LEXER_INCREMENT_LINENO_def)

lemma scan_adds_sl_comment_loop [simp]: "scan_adds lx (lexer_lex_sl_comment_loop lx ch) []"
proof (induction lx ch rule: lexer_lex_sl_comment_loop.induct)
  case (1 lx ch)
  show ?case
    using 1 scan_adds_Nil_trans [OF scan_adds_advance [of lx]]
    by (subst lexer_lex_sl_comment_loop.simps) auto
qed

lemma scan_adds_ml_comment_skip [simp]:
  "scan_adds lx (snd (lexer_lex_ml_comment_skip lx ch)) []"
proof (induction lx ch rule: lexer_lex_ml_comment_skip.induct)
  case (1 lx ch)
  show ?case
    using 1 scan_adds_Nil_trans [OF scan_adds_advance [of lx]]
    by (subst lexer_lex_ml_comment_skip.simps) auto
qed

lemma scan_adds_ml_comment_round:
  "lexer_lex_ml_comment_round lx ch = (ch2, lx2, f2) \<Longrightarrow> scan_adds lx lx2 []"
proof -
  assume r: "lexer_lex_ml_comment_round lx ch = (ch2, lx2, f2)"
  have "lx2 = snd (lexer_advance (snd (lexer_lex_ml_comment_skip lx ch)))"
    using r by (simp add: lexer_lex_ml_comment_round_def split: prod.splits)
  then show ?thesis
    using scan_adds_Nil_trans [OF scan_adds_ml_comment_skip scan_adds_advance] by simp
qed

lemma scan_adds_ml_comment_loop [simp]:
  "scan_adds lx (snd (lexer_lex_ml_comment_loop lx ch found)) []"
proof (induction lx ch found rule: lexer_lex_ml_comment_loop.induct)
  case (1 lx ch found)
  show ?case
  proof (cases "ch \<noteq> nullchar \<and> \<not> (ch = CHR ''/'' \<and> found)")
    case True
    obtain ch2 lx2 f2 where r: "lexer_lex_ml_comment_round lx ch = (ch2, lx2, f2)"
      by (cases "lexer_lex_ml_comment_round lx ch")
    have "scan_adds lx2 (snd (lexer_lex_ml_comment_loop lx2 ch2 f2)) []"
      using 1 [OF True] r by simp
    then have "scan_adds lx (snd (lexer_lex_ml_comment_loop lx2 ch2 f2)) []"
      using scan_adds_Nil_trans [OF scan_adds_ml_comment_round [OF r]] by simp
    then show ?thesis
      using True r by (subst lexer_lex_ml_comment_loop.simps) simp
  next
    case False
    then show ?thesis
      by (subst lexer_lex_ml_comment_loop.simps) auto
  qed
qed

lemma scan_adds_sl_comment [simp]: "scan_adds lx (lexer_lex_sl_comment lx) []"
  unfolding lexer_lex_sl_comment_def
  by (rule scan_adds_Nil_trans [OF scan_adds_advance scan_adds_sl_comment_loop])

lemma scan_adds_ml_comment [simp]: "scan_adds lx (lexer_lex_ml_comment lx) []"
proof -
  have "scan_adds lx (snd (lexer_lex_ml_comment_loop (snd (lexer_advance lx))
                              (fst (lexer_advance lx)) False)) []"
    by (rule scan_adds_Nil_trans [OF scan_adds_advance scan_adds_ml_comment_loop])
  then show ?thesis
    unfolding lexer_lex_ml_comment_def
    by (auto split: prod.splits intro: scan_adds_Nil_trans [OF _ scan_adds_advance])
qed

lemma scan_adds_identifier_loop [simp]: "scan_adds lx (lexer_lex_identifier_loop lx ch) []"
proof (induction lx ch rule: lexer_lex_identifier_loop.induct)
  case (1 lx ch)
  show ?case
    using 1 scan_adds_Nil_trans [OF scan_adds_advance [of lx]]
    by (subst lexer_lex_identifier_loop.simps) auto
qed

lemma scan_adds_digit_loop [simp]: "scan_adds lx (lexer_lex_digit_loop lx ch) []"
proof (induction lx ch rule: lexer_lex_digit_loop.induct)
  case (1 lx ch)
  show ?case
    using 1 scan_adds_Nil_trans [OF scan_adds_advance [of lx]]
    by (subst lexer_lex_digit_loop.simps) auto
qed

lemma scan_adds_string_loop:
  assumes "lexer_lex_string_loop lx ch = Some r"
  shows "scan_adds lx (snd r) []"
  using assms
proof (induct rule: lexer_lex_string_loop.raw_induct [rotated 1, consumes 1])
  case (1 loop lx ch r)
  then show ?case
    using scan_adds_Nil_trans [OF scan_adds_advance [of lx]]
    by (auto simp: lexer_lex_esc_char_def split: if_splits)
qed

lemma lexer_tokenlist_append_Inr:
  assumes "lexer_tokenlist_append H lx t = Inr lx'"
  shows "tokenList lx' = tokenList lx @ [t]" and "offset lx' = offset lx"
    and "colno lx' = colno lx" and "lineno lx' = lineno lx" and "fname lx' = fname lx"
    and "buffer lx' = buffer lx" and "buffer_capacity lx' = buffer_capacity lx"
  using assms
  by (auto simp: lexer_tokenlist_append_def tokenList_store_def split: if_splits)

text \<open>
  With room in the array the token is stored.  When \<^verbatim>\<open>num_tokens\<close> has reached
  \<^verbatim>\<open>tokenList_cap\<close>, the append stops at the assertion, or it goes on with a block of
  \<^verbatim>\<open>2 * TOKENLIST_ALLOC_SIZE\<close> tokens and writes behind it if that is not enough.
\<close>

lemma lexer_tokenlist_append_room:
  assumes "length (tokenList lx) < tokenList_cap lx" and "length (tokenList lx) < tokenList_size lx"
  shows "lexer_tokenlist_append H lx t = Inr (lx\<lparr>tokenList := tokenList lx @ [t]\<rparr>)"
  using assms by (simp add: lexer_tokenlist_append_def tokenList_store_def)

lemma lexer_tokenlist_append_full:
  assumes "tokenList_cap lx \<le> length (tokenList lx)"
  shows "lexer_tokenlist_append H lx t =
           (if \<not> CSTL_CHECK_NULL H False then Inl CheckFailed
            else if 2 * TOKENLIST_ALLOC_SIZE H \<le> length (tokenList lx) then Inl OutOfBounds
            else Inr (lx\<lparr>tokenList_size := 2 * TOKENLIST_ALLOC_SIZE H,
                         tokenList_cap := tokenList_cap lx + TOKENLIST_ALLOC_SIZE H,
                         tokenList := tokenList lx @ [t]\<rparr>))"
  using assms by (simp add: lexer_tokenlist_append_def tokenList_store_def)

lemma scan_adds_token:
  assumes "scan_adds lx lx1 []"
    and "lexer_tokenlist_append H lx1
           \<lparr>kind = k, tok_offset = offset lx1, tok_colno = colno lx1, tok_lineno = lineno lx1,
             tok_fname = fname lx1, value = v\<rparr> = Inr lx'"
  shows "scan_adds lx lx'
           [\<lparr>kind = k, tok_offset = offset lx', tok_colno = colno lx', tok_lineno = lineno lx',
              tok_fname = fname lx', value = v\<rparr>]"
  using assms(1) lexer_tokenlist_append_Inr [OF assms(2)]
  by (simp add: scan_adds_def made_at_def)

lemma scan_adds_identifier:
  assumes "lexer_lex_identifier H lx = Inr lx'"
  shows "\<exists>v. scan_adds lx lx' [\<lparr>kind = IDENTIFIER, tok_offset = offset lx', tok_colno = colno lx',
                     tok_lineno = lineno lx', tok_fname = fname lx', value = v\<rparr>]"
proof -
  let ?lx2 = "lexer_lex_identifier_loop (snd (lexer_advance lx)) (fst (lexer_advance lx))"
  have s: "scan_adds lx ?lx2 []"
    by (rule scan_adds_Nil_trans [OF scan_adds_advance scan_adds_identifier_loop])
  from assms obtain v where "lexer_makeidenttoken H ?lx2 v = Inr lx'"
    by (auto simp: lexer_lex_identifier_def Let_def split: if_splits sum.splits)
  then show ?thesis
    using scan_adds_token [OF s, of H IDENTIFIER v lx']
    by (auto simp: lexer_makeidenttoken_def)
qed

lemma scan_adds_digit:
  assumes "lexer_lex_digit H lx = Inr lx'"
  shows "\<exists>v. scan_adds lx lx' [\<lparr>kind = INTEGER, tok_offset = offset lx', tok_colno = colno lx',
                     tok_lineno = lineno lx', tok_fname = fname lx', value = v\<rparr>]"
proof -
  from assms obtain ch where "lexer_maketoken H (lexer_lex_digit_loop lx ch) INTEGER = Inr lx'"
    by (auto simp: lexer_lex_digit_def split: sum.splits)
  then show ?thesis
    using scan_adds_token [OF scan_adds_digit_loop [of lx ch], of H INTEGER "token_toString H INTEGER" lx']
    by (auto simp: lexer_maketoken_def)
qed

lemma scan_adds_string:
  assumes "lexer_lex_string H lx = Some (Inr lx')"
  shows "\<exists>v. scan_adds lx lx' [\<lparr>kind = STRING, tok_offset = offset lx', tok_colno = colno lx',
                     tok_lineno = lineno lx', tok_fname = fname lx', value = v\<rparr>]"
proof -
  from assms obtain ch' lx2 v
    where l: "lexer_lex_string_loop (snd (lexer_advance lx)) (fst (lexer_advance lx)) = Some (ch', lx2)"
      and r: "lexer_makestrtoken H lx2 v = Inr lx'"
    by (auto simp: lexer_lex_string_def Let_def split: if_splits sum.splits option.splits)
  have "scan_adds lx lx2 []"
    using scan_adds_Nil_trans [OF scan_adds_advance scan_adds_string_loop [OF l]] by simp
  then show ?thesis
    using scan_adds_token [of lx lx2 H STRING v lx'] r
    by (auto simp: lexer_makestrtoken_def)
qed


definition switch_post ::
  "Lexer \<Rightarrow> char \<Rightarrow> TokenKind \<Rightarrow> Lexer \<Rightarrow> diagnostic list \<Rightarrow> bool" where
  "switch_post lx c k lx2 msgs \<longleftrightarrow>
     (\<exists>ts. scan_adds lx lx2 ts \<and> (\<forall>t\<in>set ts. kind t \<in> {STRING, IDENTIFIER, INTEGER}))
     \<and> k \<noteq> TOK_EOF
     \<and> (msgs = [] \<or> k = TOK_ILLEGAL
           \<and> msgs = [SyntaxError_InvalidCharacter c (fname lx2) (lineno lx2) (colno lx2)])"

lemma switch_post_plain:
  "scan_adds lx lx2 [] \<Longrightarrow> k \<noteq> TOK_EOF \<Longrightarrow> switch_post lx c k lx2 []"
  unfolding switch_post_def by (intro conjI exI [of _ "[]"]) simp_all

lemma tokenkind_is_eq [simp]:
  "tokenkind_is K lx' = Some (Inr (k, lx2, msgs)) \<longleftrightarrow> k = K \<and> lx2 = lx' \<and> msgs = []"
  by (auto simp: tokenkind_is_def)

lemma tokenkind_is_neq [simp]:
  "tokenkind_is K lx' \<noteq> None" "tokenkind_is K lx' \<noteq> Some (Inl f)"
  by (simp_all add: tokenkind_is_def)

lemma minus_one_not_EOF [simp]: "(- 1 :: int) \<noteq> TOK_EOF"
  by (simp add: TOK_EOF_def)

lemma lexer_lex_switch_post:
  assumes "lexer_lex_switch H lx c n = Some (Inr (k, lx2, msgs))"
  shows "switch_post lx c k lx2 msgs"
proof -
  consider (ident) "ALPHA c \<or> c = CHR ''_''" "\<not> WHITESPACE_NO_NEWLINE c" "c \<noteq> CHR 0x0A"
    | (digit) "DIGIT_NON_ZERO c" "\<not> (ALPHA c \<or> c = CHR ''_'')" "\<not> WHITESPACE_NO_NEWLINE c" "c \<noteq> CHR 0x0A"
    | (quote) "c = CHR 0x22"
    | (other) "\<not> (ALPHA c \<or> c = CHR ''_'')" "\<not> DIGIT_NON_ZERO c" "c \<noteq> CHR 0x22"
    | (white) "WHITESPACE_NO_NEWLINE c \<or> c = CHR 0x0A"
    by blast
  then show ?thesis
  proof cases
    case ident
    with assms obtain lx' where "lexer_lex_identifier H lx = Inr lx'" "lx2 = lx'" "k = - 1" "msgs = []"
      by (auto simp: lexer_lex_switch_def split: sum.splits)
    then show ?thesis
      using scan_adds_identifier [of H lx lx'] by (auto simp: switch_post_def)
  next
    case digit
    with assms obtain lx' where "lexer_lex_digit H lx = Inr lx'" "lx2 = lx'" "k = - 1" "msgs = []"
      by (auto simp: lexer_lex_switch_def split: sum.splits)
    then show ?thesis
      using scan_adds_digit [of H lx lx'] by (auto simp: switch_post_def)
  next
    case quote
    then have nw: "\<not> WHITESPACE_NO_NEWLINE c" "c \<noteq> CHR 0x0A" "\<not> (ALPHA c \<or> c = CHR ''_'')"
      "\<not> DIGIT_NON_ZERO c"
      by (simp_all add: WHITESPACE_NO_NEWLINE_def ALPHA_def DIGIT_NON_ZERO_def)
    show ?thesis
    proof (cases "n = CHR 0x22")
      case True
      with assms quote nw have "k = TOK_ILLEGAL" "msgs = []"
        "lexer_makestrtoken H (LEXER_INCREMENT_OFFSET lx) [CHR 0x22, CHR 0x22] = Inr lx2"
        by (auto simp: lexer_lex_switch_def split: sum.splits)
      then show ?thesis
        using scan_adds_token [OF scan_adds_INCREMENT_OFFSET [of lx], of H STRING "[CHR 0x22, CHR 0x22]" lx2]
        by (auto simp: switch_post_def lexer_makestrtoken_def TokenKind_defs)
    next
      case False
      with assms quote nw obtain lx' where "lexer_lex_string H lx = Some (Inr lx')" "lx2 = lx'"
        "k = - 1" "msgs = []"
        by (auto simp: lexer_lex_switch_def split: sum.splits option.splits)
      then show ?thesis
        using scan_adds_string [of H lx lx'] by (auto simp: switch_post_def)
    qed
  next
    case white
    with assms have "k = - 1" "msgs = []" "scan_adds lx lx2 []"
      by (auto simp: lexer_lex_switch_def split: if_splits)
    then show ?thesis
      by (simp add: switch_post_plain)
  next
    case other
    show ?thesis
    proof (cases "msgs = []")
      case True
      have "scan_adds lx lx2 [] \<and> k \<noteq> TOK_EOF"
        using assms other True unfolding lexer_lex_switch_def
        by (auto simp: TokenKind_defs lexer_peek_def split: if_splits sum.splits
                 intro: scan_adds_Nil_trans [OF scan_adds_INCREMENT_OFFSET scan_adds_INCREMENT_OFFSET])
      then show ?thesis
        using True by (simp add: switch_post_plain)
    next
      case False
      with assms other have "k = TOK_ILLEGAL" "lx2 = lx"
        "msgs = [SyntaxError_InvalidCharacter c (fname lx) (lineno lx) (colno lx)]"
        unfolding lexer_lex_switch_def
        by (auto split: if_splits sum.splits)
      then show ?thesis
        unfolding switch_post_def
        by (intro conjI exI [of _ "[]"]) (simp_all add: TokenKind_defs)
    qed
  qed
qed


definition reported_by :: "diagnostic \<Rightarrow> Token \<Rightarrow> bool" where
  "reported_by d t \<longleftrightarrow>
     kind t = TOK_ILLEGAL
       \<and> (\<exists>c. d = SyntaxError_InvalidCharacter c (tok_fname t) (tok_lineno t) (tok_colno t))"

lemma lexer_advance_nonnull:
  "fst (lexer_advance lx) \<noteq> nullchar \<Longrightarrow> offset (snd (lexer_advance lx)) = offset lx + 1"
  by (auto simp: lexer_advance_def LEXER_INCREMENT_COLNO_def split: if_splits)

lemma lexer_lex_round_again:
  assumes "lexer_lex_round H lx = Some (Inr (True, lx', msgs))"
  shows "\<exists>ts. scan_adds lx lx' ts \<and> offset lx < offset lx'
           \<and> (\<forall>t\<in>set ts. kind t \<noteq> TOK_EOF)
           \<and> (\<forall>d\<in>set msgs. \<exists>t\<in>set ts. reported_by d t)"
proof -
  let ?c = "fst (lexer_advance lx)" and ?lx1 = "snd (lexer_advance lx)"
  from assms obtain n k lx2
    where nn: "?c \<noteq> nullchar"
      and sw: "lexer_lex_switch H ?lx1 ?c n = Some (Inr (k, lx2, msgs))"
      and lx': "k = - 1 \<and> lx' = lx2 \<or> k \<noteq> - 1 \<and> lexer_maketoken H lx2 k = Inr lx'"
    by (auto simp: lexer_lex_round_def split: sum.splits if_splits option.splits)
  from lexer_lex_switch_post [OF sw] obtain ts
    where ts: "scan_adds ?lx1 lx2 ts" "\<forall>t\<in>set ts. kind t \<in> {STRING, IDENTIFIER, INTEGER}"
      and k: "k \<noteq> TOK_EOF"
      and m: "msgs = [] \<or> k = TOK_ILLEGAL
                \<and> msgs = [SyntaxError_InvalidCharacter ?c (fname lx2) (lineno lx2) (colno lx2)]"
    by (auto simp: switch_post_def)
  have off: "offset lx < offset lx2"
    using lexer_advance_nonnull [OF nn] ts(1) by (simp add: scan_adds_def)
  have base: "scan_adds lx lx2 ts"
    using scan_adds_advance [of lx] ts(1) by (auto simp: scan_adds_def)
  show ?thesis
  proof (cases "k = - 1")
    case True
    then have "msgs = []"
      using m by (auto simp: TokenKind_defs)
    moreover have "\<forall>t\<in>set ts. kind t \<noteq> TOK_EOF"
      using ts(2) by (auto simp: TokenKind_defs)
    ultimately show ?thesis
      using True lx' base off by auto
  next
    case False
    let ?t = "\<lparr>kind = k, tok_offset = offset lx2, tok_colno = colno lx2, tok_lineno = lineno lx2,
                tok_fname = fname lx2, value = token_toString H k\<rparr>"
    have "lexer_tokenlist_append H lx2 ?t = Inr lx'"
      using False lx' by (simp add: lexer_maketoken_def)
    note lx'' = lexer_tokenlist_append_Inr [OF this]
    have "scan_adds lx lx' (ts @ [?t])"
      using base lx''
      by (auto simp: scan_adds_def made_at_def)
    moreover have "offset lx < offset lx'"
      using off by (simp add: lx'')
    moreover have "\<forall>t\<in>set (ts @ [?t]). kind t \<noteq> TOK_EOF"
      using ts(2) k by (auto simp: TokenKind_defs)
    moreover have "\<forall>d\<in>set msgs. \<exists>t\<in>set (ts @ [?t]). reported_by d t"
      using m by (auto simp: reported_by_def)
    ultimately show ?thesis
      by blast
  qed
qed

lemma lexer_lex_round_eof:
  assumes "lexer_lex_round H lx = Some (Inr (False, lx', msgs))"
  shows "lx' = lx \<and> msgs = [] \<and> buffer_capacity lx \<le> offset lx \<or>
         lx' = snd (lexer_advance lx) \<and> msgs = [] \<and> buffer lx ! offset lx = nullchar"
  using assms
  by (auto simp: lexer_lex_round_def lexer_advance_def split: sum.splits if_splits option.splits prod.splits)


definition loop_post :: "Lexer \<Rightarrow> diagnostic list \<Rightarrow> Lexer \<Rightarrow> diagnostic list \<Rightarrow> bool" where
  "loop_post lx err lxf errf \<longleftrightarrow>
     (\<exists>ts eof es.
        tokenList lxf = tokenList lx @ ts @ [eof] \<and> kind eof = TOK_EOF
          \<and> (\<forall>t\<in>set ts. kind t \<noteq> TOK_EOF \<and> offset lx < tok_offset t)
          \<and> errf = err @ es \<and> (\<forall>d\<in>set es. \<exists>t\<in>set ts. reported_by d t))"

lemma loop_post_eof:
  assumes "tokenList lx' = tokenList lx" and "lexer_maketoken H lx' TOK_EOF = Inr lxf"
  shows "loop_post lx err lxf err"
  unfolding loop_post_def
  using assms(1) lexer_tokenlist_append_Inr(1) [OF assms(2) [unfolded lexer_maketoken_def]]
  by (intro exI [of _ "[]"] exI [of _ "\<lparr>kind = TOK_EOF, tok_offset = offset lx', tok_colno = colno lx',
        tok_lineno = lineno lx', tok_fname = fname lx', value = token_toString H TOK_EOF\<rparr>"])
     simp

lemma loop_post_again:
  assumes "scan_adds lx lx' ts" "offset lx < offset lx'" "\<forall>t\<in>set ts. kind t \<noteq> TOK_EOF"
    and "\<forall>d\<in>set msgs. \<exists>t\<in>set ts. reported_by d t"
    and "loop_post lx' (err @ msgs) lxf errf"
  shows "loop_post lx err lxf errf"
proof -
  from assms(5) obtain ts' eof es
    where *: "tokenList lxf = tokenList lx' @ ts' @ [eof]" "kind eof = TOK_EOF"
      "\<forall>t\<in>set ts'. kind t \<noteq> TOK_EOF \<and> offset lx' < tok_offset t"
      "errf = (err @ msgs) @ es" "\<forall>d\<in>set es. \<exists>t\<in>set ts'. reported_by d t"
    unfolding loop_post_def by blast
  have "tokenList lxf = tokenList lx @ (ts @ ts') @ [eof]"
    using *(1) assms(1) by (simp add: scan_adds_def)
  moreover have "\<forall>t\<in>set (ts @ ts'). kind t \<noteq> TOK_EOF \<and> offset lx < tok_offset t"
    using *(3) assms(1,2,3) by (auto simp: scan_adds_def made_at_def)
  moreover have "errf = err @ (msgs @ es)"
    using *(4) by simp
  moreover have "\<forall>d\<in>set (msgs @ es). \<exists>t\<in>set (ts @ ts'). reported_by d t"
    using *(5) assms(4) by auto
  ultimately show ?thesis
    unfolding loop_post_def using *(2) by blast
qed

lemma lexer_lex_loop_post:
  assumes "lexer_lex_loop H lx err = Some y"
  shows "\<forall>lxf errf. y = Inr (lxf, errf) \<longrightarrow> loop_post lx err lxf errf"
  using assms
proof (induct rule: lexer_lex_loop.raw_induct [rotated 1, consumes 1])
  case (1 loop H lx err y)
  show ?case
  proof (intro allI impI)
    fix lxf errf
    assume y: "y = Inr (lxf, errf)"
    from 1(2) y obtain again lx' msgs
      where r: "lexer_lex_round H lx = Some (Inr (again, lx', msgs))"
        and b: "(if again then loop H lx' (err @ msgs)
                 else (case lexer_maketoken H lx' TOK_EOF of
                         Inl f \<Rightarrow> Some (Inl f)
                       | Inr lxf \<Rightarrow> Some (Inr (lxf, err)))) = Some y"
      by (auto split: option.splits sum.splits)
    show "loop_post lx err lxf errf"
    proof (cases again)
      case True
      with b have "loop H lx' (err @ msgs) = Some y"
        by simp
      from 1(1) [OF this] y have "loop_post lx' (err @ msgs) lxf errf"
        by simp
      moreover have "lexer_lex_round H lx = Some (Inr (True, lx', msgs))"
        using r True by simp
      from lexer_lex_round_again [OF this]
      obtain ts where "scan_adds lx lx' ts" "offset lx < offset lx'"
        "\<forall>t\<in>set ts. kind t \<noteq> TOK_EOF" "\<forall>d\<in>set msgs. \<exists>t\<in>set ts. reported_by d t"
        by blast
      ultimately show ?thesis
        by (rule loop_post_again [rotated 4])
    next
      case False
      with b y have "lexer_maketoken H lx' TOK_EOF = Inr lxf" "errf = err"
        by (auto split: sum.splits)
      moreover have "tokenList lx' = tokenList lx"
        using lexer_lex_round_eof [of H lx lx' msgs] r False scan_adds_advance [of lx]
        by (auto simp: scan_adds_def)
      ultimately show ?thesis
        by (simp add: loop_post_eof)
    qed
  qed
qed

subsection \<open>The token array\<close>

text \<open>
  A token array with \<^verbatim>\<open>TOKENLIST_ALLOC_SIZE = 1\<close> is full after the first token.  On the two
  semicolons of \<^verbatim>\<open>;;\<close> the lexer then stops at the assertion of \<^verbatim>\<open>lexer_tokenlist_append\<close> if
  the assertion asks for a null pointer; if it lets the pointer pass, the second token goes
  into the new block of two, and the \<open>EOF\<close> token is written behind it, because the block is
  not made larger a second time.
\<close>

lemma lex_token_array_full:
  "lex (lexer_h\<lparr>TOKENLIST_ALLOC_SIZE := 1\<rparr>) '';;'' = Some (Inl CheckFailed)"
  "lex (lexer_h\<lparr>TOKENLIST_ALLOC_SIZE := 1, CSTL_CHECK_NULL := (\<lambda>is_null. True)\<rparr>) '';;''
     = Some (Inl OutOfBounds)"
  by code_simp+

subsection \<open>The end of the token list\<close>

text \<open>
  Whenever lexing a source buffer returns a token list, the list ends with an \<open>EOF\<close> token,
  no other token of the list has kind \<open>EOF\<close>, and every invalid character written to
  \<^verbatim>\<open>stderr\<close> has a token of kind \<open>ILLEGAL\<close> in the list, made at the line and column of
  the message.
\<close>

lemma lex_ends_with_one_EOF:
  assumes "lex H buf = Some (Inr (toks, err))"
  shows "toks \<noteq> [] \<and> kind (last toks) = TOK_EOF
           \<and> (\<forall>t\<in>set (butlast toks). kind t \<noteq> TOK_EOF)
           \<and> (\<forall>d\<in>set err. \<exists>t\<in>set toks. reported_by d t)"
proof -
  from assms obtain lx0 lxf
    where l: "lexer_lex_loop H lx0 [] = Some (Inr (lxf, err))"
      and t0: "tokenList lx0 = []" and tf: "tokenList lxf = toks"
    by (auto simp: lex_def lexer_lex_def lexer_init_def lexer_advancen_def
             split: option.splits sum.splits if_splits)
  from lexer_lex_loop_post [OF l] have "loop_post lx0 [] lxf err"
    by simp
  then obtain ts eof where "toks = ts @ [eof]" "kind eof = TOK_EOF"
    "\<forall>t\<in>set ts. kind t \<noteq> TOK_EOF" "\<forall>d\<in>set err. \<exists>t\<in>set ts. reported_by d t"
    unfolding loop_post_def using t0 tf by auto
  then show ?thesis
    by auto
qed

text \<open>
  C1.  The claim asks that the token list of a buffer on which lexing succeeds holds no token
  of kind \<open>ILLEGAL\<close>.  The empty string literal breaks it.  In the case \<^verbatim>\<open>""\<close> of its
  \<^verbatim>\<open>switch\<close>, \<^verbatim>\<open>lexer_lex\<close> makes the \<open>STRING\<close> token and leaves \<^verbatim>\<open>tokenkind\<close> at
  \<^verbatim>\<open>TOK_ILLEGAL\<close>, where the other cases that make their token themselves set it to \<^verbatim>\<open>-1\<close>;
  so the call of \<^verbatim>\<open>lexer_maketoken\<close> behind the \<^verbatim>\<open>switch\<close> appends a token of kind
  \<open>ILLEGAL\<close>.  For every instance of the missing definitions with room for three tokens,
  lexing the two characters \<^verbatim>\<open>""\<close> writes nothing to \<^verbatim>\<open>stderr\<close> and returns the three
  tokens \<open>STRING\<close>, \<open>ILLEGAL\<close>, \<open>EOF\<close>.
\<close>

theorem lex_empty_string_literal_ILLEGAL:
  assumes "3 \<le> TOKENLIST_ALLOC_SIZE H"
  shows "lex H [CHR 0x22, CHR 0x22] =
           Some (Inr ([\<lparr>kind = STRING, tok_offset = 2, tok_colno = 3, tok_lineno = 1,
                        tok_fname = [], value = [CHR 0x22, CHR 0x22]\<rparr>,
                       \<lparr>kind = TOK_ILLEGAL, tok_offset = 2, tok_colno = 3, tok_lineno = 1,
                        tok_fname = [], value = token_toString H TOK_ILLEGAL\<rparr>,
                       \<lparr>kind = TOK_EOF, tok_offset = 2, tok_colno = 3, tok_lineno = 1,
                        tok_fname = [], value = token_toString H TOK_EOF\<rparr>],
                      []))"
  using assms
  by (simp add: lex_def lexer_lex_def lexer_init_def nullchar_def buffer_at_def
        lexer_lex_loop.simps lexer_lex_round_def lexer_advance_def LEXER_INCREMENT_COLNO_def
        LEXER_INCREMENT_OFFSET_def lexer_peek_def lexer_lex_switch_def WHITESPACE_NO_NEWLINE_def
        ALPHA_def DIGIT_NON_ZERO_def lexer_makestrtoken_def lexer_maketoken_def
        lexer_tokenlist_append_def tokenList_store_def tokenkind_is_def TokenKind_defs)

theorem lex_empty_string_literal_ILLEGAL_witness:
  "3 \<le> TOKENLIST_ALLOC_SIZE lexer_h
   \<and> lex lexer_h [CHR 0x22, CHR 0x22] =
       Some (Inr ([\<lparr>kind = STRING, tok_offset = 2, tok_colno = 3, tok_lineno = 1,
                    tok_fname = [], value = [CHR 0x22, CHR 0x22]\<rparr>,
                   \<lparr>kind = TOK_ILLEGAL, tok_offset = 2, tok_colno = 3, tok_lineno = 1,
                    tok_fname = [], value = []\<rparr>,
                   \<lparr>kind = TOK_EOF, tok_offset = 2, tok_colno = 3, tok_lineno = 1,
                    tok_fname = [], value = []\<rparr>],
                  []))"
proof -
  have h: "3 \<le> TOKENLIST_ALLOC_SIZE lexer_h"
    by (simp add: lexer_h_def)
  from lex_empty_string_literal_ILLEGAL [OF h] h show ?thesis
    by (simp add: lexer_h_def)
qed

subsection \<open>Invalid characters\<close>

lemma lexer_lex_switch_default:
  "\<not> has_case c \<Longrightarrow>
     lexer_lex_switch H lx c n =
       Some (Inr (TOK_ILLEGAL, lx, [SyntaxError_InvalidCharacter c (fname lx) (lineno lx) (colno lx)]))"
  by (simp add: has_case_def lexer_lex_switch_def)

lemma lexer_lex_round_default:
  assumes "offset lx < buffer_capacity lx" and "buffer_capacity lx = length (buffer lx)"
    and "\<not> has_case (buffer lx ! offset lx)"
  shows "lexer_lex_round H lx =
           (case lexer_maketoken H (snd (lexer_advance lx)) TOK_ILLEGAL of
              Inl f \<Rightarrow> Some (Inl f)
            | Inr lx' \<Rightarrow>
                Some (Inr (True, lx',
                           [SyntaxError_InvalidCharacter (buffer lx ! offset lx) (fname lx) (lineno lx)
                              (colno lx + 1)])))"
proof -
  have a: "lexer_advance lx = (buffer lx ! offset lx, lx\<lparr>colno := colno lx + 1, offset := offset lx + 1\<rparr>)"
    using assms(1) by (simp add: lexer_advance_def LEXER_INCREMENT_COLNO_def)
  have "\<exists>n. lexer_peek (snd (lexer_advance lx)) = Inr n"
    using assms(1,2) by (cases "Suc (offset lx) < length (buffer lx)")
      (simp_all add: a lexer_peek_def buffer_at_def)
  then obtain n where p: "lexer_peek (snd (lexer_advance lx)) = Inr n" ..
  have nn: "buffer lx ! offset lx \<noteq> nullchar"
    using assms(3) by (auto simp: has_case_def)
  show ?thesis
    using nn p lexer_lex_switch_default [OF assms(3)]
    by (simp add: lexer_lex_round_def a TokenKind_defs split: sum.splits)
qed

text \<open>
  C2 (as amended).  When the main loop of \<^verbatim>\<open>lexer_lex\<close> reads a character that has no \<^verbatim>\<open>case\<close> in
  its \<^verbatim>\<open>switch\<close> (this includes \<^verbatim>\<open>0\<close> and the single quote), it writes the invalid-character
  message with the file, the line and the column behind the character to \<^verbatim>\<open>stderr\<close>; then,
  if the token array has room for one more token (\<^verbatim>\<open>num_tokens\<close> is below \<^verbatim>\<open>tokenList_cap\<close>
  and below the size of the block), it appends a token of kind \<open>ILLEGAL\<close> and goes on with
  the rest of the buffer: the unit is not aborted.  If lexing then returns, the caller gets
  the whole token list, with the \<open>ILLEGAL\<close> token, the tokens made after it and the final
  \<open>EOF\<close>.
\<close>

theorem lexer_lex_invalid_character:
  assumes "offset lx < buffer_capacity lx" and "buffer_capacity lx = length (buffer lx)"
    and "\<not> has_case (buffer lx ! offset lx)"
    and "length (tokenList lx) < tokenList_cap lx" and "length (tokenList lx) < tokenList_size lx"
  shows "lexer_lex_round H lx =
           Some (Inr (True,
                      lx\<lparr>colno := colno lx + 1, offset := offset lx + 1,
                         tokenList := tokenList lx
                           @ [\<lparr>kind = TOK_ILLEGAL, tok_offset = offset lx + 1,
                                tok_colno = colno lx + 1, tok_lineno = lineno lx,
                                tok_fname = fname lx, value = token_toString H TOK_ILLEGAL\<rparr>]\<rparr>,
                      [SyntaxError_InvalidCharacter (buffer lx ! offset lx) (fname lx) (lineno lx)
                         (colno lx + 1)]))
         \<and> lexer_lex_loop H lx err =
             lexer_lex_loop H
               (lx\<lparr>colno := colno lx + 1, offset := offset lx + 1,
                   tokenList := tokenList lx
                     @ [\<lparr>kind = TOK_ILLEGAL, tok_offset = offset lx + 1,
                          tok_colno = colno lx + 1, tok_lineno = lineno lx,
                          tok_fname = fname lx, value = token_toString H TOK_ILLEGAL\<rparr>]\<rparr>)
               (err @ [SyntaxError_InvalidCharacter (buffer lx ! offset lx) (fname lx) (lineno lx)
                         (colno lx + 1)])
         \<and> (\<forall>lxf errf. lexer_lex_loop H lx err = Some (Inr (lxf, errf)) \<longrightarrow>
               (\<exists>ts. tokenList lxf =
                        tokenList lx
                          @ \<lparr>kind = TOK_ILLEGAL, tok_offset = offset lx + 1, tok_colno = colno lx + 1,
                               tok_lineno = lineno lx, tok_fname = fname lx,
                               value = token_toString H TOK_ILLEGAL\<rparr>
                          # ts
                      \<and> ts \<noteq> [] \<and> kind (last ts) = TOK_EOF)
               \<and> SyntaxError_InvalidCharacter (buffer lx ! offset lx) (fname lx) (lineno lx)
                    (colno lx + 1) \<in> set errf)"
proof -
  let ?d = "SyntaxError_InvalidCharacter (buffer lx ! offset lx) (fname lx) (lineno lx) (colno lx + 1)"
  let ?t = "\<lparr>kind = TOK_ILLEGAL, tok_offset = offset lx + 1, tok_colno = colno lx + 1,
              tok_lineno = lineno lx, tok_fname = fname lx, value = token_toString H TOK_ILLEGAL\<rparr>"
  let ?lx' = "lx\<lparr>colno := colno lx + 1, offset := offset lx + 1, tokenList := tokenList lx @ [?t]\<rparr>"
  have a: "lexer_advance lx = (buffer lx ! offset lx, lx\<lparr>colno := colno lx + 1, offset := offset lx + 1\<rparr>)"
    using assms(1) by (simp add: lexer_advance_def LEXER_INCREMENT_COLNO_def)
  have mk: "lexer_maketoken H (snd (lexer_advance lx)) TOK_ILLEGAL = Inr ?lx'"
    using assms(4,5)
    by (simp add: a lexer_maketoken_def lexer_tokenlist_append_def tokenList_store_def)
  have round: "lexer_lex_round H lx = Some (Inr (True, ?lx', [?d]))"
    by (simp add: lexer_lex_round_default [OF assms(1,2,3)] mk)
  have step: "lexer_lex_loop H lx err = lexer_lex_loop H ?lx' (err @ [?d])"
    by (subst lexer_lex_loop.simps) (simp add: round)
  have tl: "tokenList ?lx' = tokenList lx @ [?t]"
    by simp
  have "\<exists>ts. tokenList lxf = tokenList ?lx' @ ts \<and> ts \<noteq> [] \<and> kind (last ts) = TOK_EOF
          \<and> ?d \<in> set errf"
    if "lexer_lex_loop H lx err = Some (Inr (lxf, errf))" for lxf errf
  proof -
    from that step have "lexer_lex_loop H ?lx' (err @ [?d]) = Some (Inr (lxf, errf))"
      by simp
    from lexer_lex_loop_post [OF this] have "loop_post ?lx' (err @ [?d]) lxf errf"
      by simp
    then obtain ts eof es where "tokenList lxf = tokenList ?lx' @ ts @ [eof]" "kind eof = TOK_EOF"
      "errf = (err @ [?d]) @ es"
      unfolding loop_post_def by blast
    then show ?thesis
      by (intro exI [of _ "ts @ [eof]"]) simp
  qed
  then have final: "\<forall>lxf errf. lexer_lex_loop H lx err = Some (Inr (lxf, errf)) \<longrightarrow>
               (\<exists>ts. tokenList lxf = tokenList lx @ ?t # ts \<and> ts \<noteq> [] \<and> kind (last ts) = TOK_EOF)
               \<and> ?d \<in> set errf"
    unfolding tl by auto
  from round step final show ?thesis
    by blast
qed

theorem lexer_lex_invalid_character_witness:
  "offset (lexer_init lexer_h ''$)'') < buffer_capacity (lexer_init lexer_h ''$)'')
   \<and> buffer_capacity (lexer_init lexer_h ''$)'') = length (buffer (lexer_init lexer_h ''$)''))
   \<and> \<not> has_case (buffer (lexer_init lexer_h ''$)'') ! offset (lexer_init lexer_h ''$)''))
   \<and> length (tokenList (lexer_init lexer_h ''$)'')) < tokenList_cap (lexer_init lexer_h ''$)'')
   \<and> length (tokenList (lexer_init lexer_h ''$)'')) < tokenList_size (lexer_init lexer_h ''$)'')
   \<and> lexer_lex_round lexer_h (lexer_init lexer_h ''$)'') =
       Some (Inr (True,
                  \<lparr>buffer = ''$)'', buffer_capacity = 2, offset = 1,
                     tokenList = [\<lparr>kind = TOK_ILLEGAL, tok_offset = 1, tok_colno = 2, tok_lineno = 1,
                                  tok_fname = [], value = []\<rparr>],
                     tokenList_cap = 16, tokenList_size = 16,
                     lineno = 1, colno = 2, fname = [], is_inside_str = False\<rparr>,
                  [SyntaxError_InvalidCharacter CHR ''$'' [] 1 2]))"
proof -
  have h1: "offset (lexer_init lexer_h ''$)'') < buffer_capacity (lexer_init lexer_h ''$)'')"
    by (simp add: lexer_init_def nullchar_def)
  have h2: "buffer_capacity (lexer_init lexer_h ''$)'') = length (buffer (lexer_init lexer_h ''$)''))"
    by (simp add: lexer_init_def)
  have h3: "\<not> has_case (buffer (lexer_init lexer_h ''$)'') ! offset (lexer_init lexer_h ''$)''))"
    by (simp add: lexer_init_def nullchar_def has_case_def WHITESPACE_NO_NEWLINE_def ALPHA_def
                  DIGIT_NON_ZERO_def)
  have h4: "length (tokenList (lexer_init lexer_h ''$)'')) < tokenList_cap (lexer_init lexer_h ''$)'')"
    and h5: "length (tokenList (lexer_init lexer_h ''$)'')) < tokenList_size (lexer_init lexer_h ''$)'')"
    by (simp_all add: lexer_init_def lexer_h_def)
  from lexer_lex_invalid_character [OF h1 h2 h3 h4 h5, of lexer_h "[]"] h1 h2 h3 h4 h5
  show ?thesis
    by (simp add: lexer_init_def lexer_h_def nullchar_def TokenKind_defs)
qed

text \<open>
  The claim as stated fails: after the invalid character \<^verbatim>\<open>$\<close> the lexer makes the token of the
  parenthesis behind it, and the caller gets all three tokens.
\<close>

theorem lex_goes_on_after_invalid_character_counterexample:
  "lex lexer_h ''$)'' =
     Some (Inr ([\<lparr>kind = TOK_ILLEGAL, tok_offset = 1, tok_colno = 2, tok_lineno = 1,
                  tok_fname = [], value = []\<rparr>,
                 \<lparr>kind = RPAREN, tok_offset = 2, tok_colno = 3, tok_lineno = 1,
                  tok_fname = [], value = []\<rparr>,
                 \<lparr>kind = TOK_EOF, tok_offset = 2, tok_colno = 3, tok_lineno = 1,
                  tok_fname = [], value = []\<rparr>],
                [SyntaxError_InvalidCharacter CHR ''$'' [] 1 2]))"
  by code_simp

subsection \<open>Identifiers and keywords\<close>

lemma lexer_lex_identifier_loop_scan:
  assumes "buffer lx = xs @ u @ d # rest" and "offset lx = length xs"
    and "buffer_capacity lx = length (buffer lx)"
    and "\<forall>x\<in>set u. isLetter x \<or> isDigit x" and "\<not> (isLetter d \<or> isDigit d)"
    and "isLetter ch \<or> isDigit ch"
  shows "lexer_lex_identifier_loop lx ch =
           lx\<lparr>colno := colno lx + length u + 1, offset := length xs + length u + 1\<rparr>"
  using assms
proof (induction u arbitrary: lx xs ch)
  case Nil
  then have a: "lexer_advance lx = (d, lx\<lparr>colno := colno lx + 1, offset := length xs + 1\<rparr>)"
    by (simp add: lexer_advance_def LEXER_INCREMENT_COLNO_def)
  show ?case
    using Nil(5,6)
    by (subst lexer_lex_identifier_loop.simps, simp add: a)
       (subst lexer_lex_identifier_loop.simps, simp)
next
  case (Cons a u)
  let ?lx1 = "lx\<lparr>colno := colno lx + 1, offset := length xs + 1\<rparr>"
  have adv: "lexer_advance lx = (a, ?lx1)"
    using Cons.prems(1,2,3) by (simp add: lexer_advance_def LEXER_INCREMENT_COLNO_def)
  have "lexer_lex_identifier_loop ?lx1 a =
          ?lx1\<lparr>colno := colno ?lx1 + length u + 1, offset := length (xs @ [a]) + length u + 1\<rparr>"
    using Cons.prems by (intro Cons.IH [of ?lx1 "xs @ [a]"]) simp_all
  then show ?case
    using Cons.prems(6) by (subst lexer_lex_identifier_loop.simps) (simp add: adv)
qed

text \<open>
  C3 (as amended).  \<^verbatim>\<open>lexer_lex_identifier\<close> looks nothing up: for every lexeme \<open>c # u\<close> of
  letters, digits and underscores, a keyword or not, that a character of another kind follows in
  the buffer, that is shorter than \<^verbatim>\<open>MAX_TOKEN_SIZE\<close> and that finds room for one more token in
  the token array (\<^verbatim>\<open>num_tokens\<close> is below \<^verbatim>\<open>tokenList_cap\<close> and below the size of the
  block), it emits one token of kind \<open>IDENTIFIER\<close> whose value is the lexeme.  (The state
  \<open>lx\<close> is the one in which \<^verbatim>\<open>lexer_lex\<close> calls the function: the first character \<open>c\<close> of the
  lexeme has been read.)
\<close>

theorem lexer_lex_identifier_keyword_or_not:
  assumes "buffer lx = pre @ c # u @ d # rest" and "offset lx = length pre + 1"
    and "buffer_capacity lx = length (buffer lx)"
    and "\<forall>x\<in>set u. isLetter x \<or> isDigit x" and "\<not> (isLetter d \<or> isDigit d)"
    and "length (c # u) < MAX_TOKEN_SIZE H"
    and "length (tokenList lx) < tokenList_cap lx" and "length (tokenList lx) < tokenList_size lx"
  shows "\<exists>lx'. lexer_lex_identifier H lx = Inr lx'
           \<and> tokenList lx' =
               tokenList lx
                 @ [\<lparr>kind = IDENTIFIER, tok_offset = length pre + length u + 2,
                      tok_colno = colno lx + length u + 1, tok_lineno = lineno lx,
                      tok_fname = fname lx, value = c # u\<rparr>]"
proof -
  let ?lx2 = "lx\<lparr>colno := colno lx + length u + 1, offset := length pre + length u + 2\<rparr>"
  have loop: "lexer_lex_identifier_loop (snd (lexer_advance lx)) (fst (lexer_advance lx)) = ?lx2"
  proof (cases u)
    case Nil
    then have "lexer_advance lx = (d, lx\<lparr>colno := colno lx + 1, offset := length pre + 2\<rparr>)"
      using assms(1,2,3) by (simp add: lexer_advance_def LEXER_INCREMENT_COLNO_def nth_append)
    then show ?thesis
      using assms(5) Nil by (simp add: lexer_lex_identifier_loop.simps)
  next
    case (Cons a u')
    let ?lx1 = "lx\<lparr>colno := colno lx + 1, offset := length pre + 2\<rparr>"
    have adv: "lexer_advance lx = (a, ?lx1)"
      using assms(1,2,3) Cons by (simp add: lexer_advance_def LEXER_INCREMENT_COLNO_def nth_append)
    have "lexer_lex_identifier_loop ?lx1 a =
            ?lx1\<lparr>colno := colno ?lx1 + length u' + 1,
                  offset := length (pre @ [c, a]) + length u' + 1\<rparr>"
      using assms Cons by (intro lexer_lex_identifier_loop_scan [of ?lx1 "pre @ [c, a]" u' d rest]) simp_all
    then show ?thesis
      using Cons by (simp add: adv)
  qed
  have off1: "offset (snd (lexer_advance lx)) = length pre + 2"
    using assms(1,2,3) by (simp add: lexer_advance_def LEXER_INCREMENT_COLNO_def)
  have sub: "substr (MAX_TOKEN_SIZE H) (buffer ?lx2) (int (length pre + 2) - 1 - 1)
               (int (offset ?lx2) - (int (length pre + 2) - 1))
               = Inr (c # u)"
  proof -
    have "nat (1 + int (length u)) = Suc (length u)"
      by simp
    then show ?thesis
      using assms(1,6) by (simp add: substr_def)
  qed
  show ?thesis
    using sub assms(7,8)
    by (simp add: lexer_lex_identifier_def Let_def loop off1 lexer_makeidenttoken_def
                  lexer_tokenlist_append_def tokenList_store_def)
qed

theorem lexer_lex_identifier_keyword_or_not_witness:
  "buffer (snd (lexer_advance (lexer_init lexer_h ''if x''))) = [] @ CHR ''i'' # ''f'' @ CHR '' '' # ''x''
   \<and> offset (snd (lexer_advance (lexer_init lexer_h ''if x''))) = length ([] :: string) + 1
   \<and> buffer_capacity (snd (lexer_advance (lexer_init lexer_h ''if x'')))
       = length (buffer (snd (lexer_advance (lexer_init lexer_h ''if x''))))
   \<and> (isLetter CHR ''f'' \<or> isDigit CHR ''f'')
   \<and> \<not> (isLetter CHR '' '' \<or> isDigit CHR '' '')
   \<and> length (CHR ''i'' # ''f'') < MAX_TOKEN_SIZE lexer_h
   \<and> length (tokenList (snd (lexer_advance (lexer_init lexer_h ''if x''))))
       < tokenList_cap (snd (lexer_advance (lexer_init lexer_h ''if x'')))
   \<and> length (tokenList (snd (lexer_advance (lexer_init lexer_h ''if x''))))
       < tokenList_size (snd (lexer_advance (lexer_init lexer_h ''if x'')))
   \<and> (\<exists>lx'. lexer_lex_identifier lexer_h (snd (lexer_advance (lexer_init lexer_h ''if x''))) = Inr lx'
          \<and> tokenList lx' =
              tokenList (snd (lexer_advance (lexer_init lexer_h ''if x'')))
                @ [\<lparr>kind = IDENTIFIER, tok_offset = length ([] :: string) + length ''f'' + 2,
                     tok_colno = colno (snd (lexer_advance (lexer_init lexer_h ''if x''))) + length ''f'' + 1,
                     tok_lineno = lineno (snd (lexer_advance (lexer_init lexer_h ''if x''))),
                     tok_fname = fname (snd (lexer_advance (lexer_init lexer_h ''if x''))),
                     value = CHR ''i'' # ''f''\<rparr>])"
proof -
  let ?lx = "snd (lexer_advance (lexer_init lexer_h ''if x''))"
  have h1: "buffer ?lx = [] @ CHR ''i'' # ''f'' @ CHR '' '' # ''x''"
    by (simp add: lexer_init_def lexer_advance_def LEXER_INCREMENT_COLNO_def nullchar_def)
  have h2: "offset ?lx = length ([] :: string) + 1"
    by (simp add: lexer_init_def lexer_advance_def LEXER_INCREMENT_COLNO_def nullchar_def)
  have h3: "buffer_capacity ?lx = length (buffer ?lx)"
    by (simp add: lexer_init_def lexer_advance_def LEXER_INCREMENT_COLNO_def nullchar_def)
  have h4: "\<forall>x\<in>set ''f''. isLetter x \<or> isDigit x"
    by (simp add: isLetter_def ALPHA_def)
  have h5: "\<not> (isLetter CHR '' '' \<or> isDigit CHR '' '')"
    by (simp add: isLetter_def isDigit_def ALPHA_def DIGIT_NON_ZERO_def)
  have h6: "length (CHR ''i'' # ''f'') < MAX_TOKEN_SIZE lexer_h"
    by (simp add: lexer_h_def)
  have h7: "length (tokenList ?lx) < tokenList_cap ?lx"
    and h8: "length (tokenList ?lx) < tokenList_size ?lx"
    by (simp_all add: lexer_init_def lexer_advance_def LEXER_INCREMENT_COLNO_def nullchar_def
                      lexer_h_def)
  from lexer_lex_identifier_keyword_or_not [OF h1 h2 h3 h4 h5 h6 h7 h8] h1 h2 h3 h4 h5 h6 h7 h8
  show ?thesis
    by simp
qed

text \<open>
  The claim as stated fails: the keyword \<^verbatim>\<open>if\<close> is lexed to a token of kind \<open>IDENTIFIER\<close>, not
  \<open>IF\<close>.
\<close>

theorem lex_keyword_is_IDENTIFIER_counterexample:
  "lex lexer_h ''if '' =
     Some (Inr ([\<lparr>kind = IDENTIFIER, tok_offset = 3, tok_colno = 4, tok_lineno = 1,
                  tok_fname = [], value = ''if''\<rparr>,
                 \<lparr>kind = TOK_EOF, tok_offset = 3, tok_colno = 4, tok_lineno = 1,
                  tok_fname = [], value = []\<rparr>],
                []))"
  by code_simp

subsection \<open>Token locations\<close>

text \<open>
  C5 (as amended).  A token records the offset, line and column that the lexer has when the
  token is made, which is after the characters of its lexeme have been read: the tokens made in
  one round of the main loop all carry the position at which the round ends, and that offset is
  greater than the offset at which the round, and the lexeme, began.  So no token of a returned
  list, the final \<open>EOF\<close> apart, is located at offset 0, where the first lexeme of a buffer begins.
\<close>

theorem lexer_token_location_after_lexeme:
  "(lexer_lex_round H lx = Some (Inr (True, lx', msgs)) \<longrightarrow>
      offset lx < offset lx'
      \<and> (\<exists>ts. tokenList lx' = tokenList lx @ ts
                \<and> (\<forall>t\<in>set ts. tok_offset t = offset lx' \<and> tok_colno t = colno lx'
                                  \<and> tok_lineno t = lineno lx')))
   \<and> (lex H buf = Some (Inr (toks, err)) \<longrightarrow> (\<forall>t\<in>set (butlast toks). 0 < tok_offset t))"
proof -
  have round: "offset lx < offset lx'
      \<and> (\<exists>ts. tokenList lx' = tokenList lx @ ts
                \<and> (\<forall>t\<in>set ts. tok_offset t = offset lx' \<and> tok_colno t = colno lx'
                                  \<and> tok_lineno t = lineno lx'))"
    if "lexer_lex_round H lx = Some (Inr (True, lx', msgs))"
  proof -
    from lexer_lex_round_again [OF that] obtain ts
      where "scan_adds lx lx' ts" "offset lx < offset lx'"
      by blast
    then show ?thesis
      by (auto simp: scan_adds_def made_at_def)
  qed
  have run: "\<forall>t\<in>set (butlast toks). 0 < tok_offset t"
    if "lex H buf = Some (Inr (toks, err))"
  proof -
    from that obtain lx0 lxf
      where l: "lexer_lex_loop H lx0 [] = Some (Inr (lxf, err))"
        and t0: "tokenList lx0 = []" and tf: "tokenList lxf = toks"
      by (auto simp: lex_def lexer_lex_def lexer_init_def lexer_advancen_def
               split: option.splits sum.splits if_splits)
    from lexer_lex_loop_post [OF l] have "loop_post lx0 [] lxf err"
      by simp
    then obtain ts eof where "toks = ts @ [eof]" "\<forall>t\<in>set ts. offset lx0 < tok_offset t"
      unfolding loop_post_def using t0 tf by auto
    then show ?thesis
      by auto
  qed
  from round run show ?thesis
    by blast
qed

theorem lexer_token_location_after_lexeme_witness:
  "lexer_lex_round lexer_h (lexer_init lexer_h ''+;'') =
     Some (Inr (True,
                \<lparr>buffer = ''+;'', buffer_capacity = 2, offset = 1,
                   tokenList = [\<lparr>kind = PLUS, tok_offset = 1, tok_colno = 2, tok_lineno = 1,
                                tok_fname = [], value = []\<rparr>],
                   tokenList_cap = 16, tokenList_size = 16,
                   lineno = 1, colno = 2, fname = [], is_inside_str = False\<rparr>,
                []))
   \<and> offset (lexer_init lexer_h ''+;'') < 1
   \<and> lex lexer_h ''+;'' =
       Some (Inr ([\<lparr>kind = PLUS, tok_offset = 1, tok_colno = 2, tok_lineno = 1,
                    tok_fname = [], value = []\<rparr>,
                   \<lparr>kind = SEMICOLON, tok_offset = 2, tok_colno = 3, tok_lineno = 1,
                    tok_fname = [], value = []\<rparr>,
                   \<lparr>kind = TOK_EOF, tok_offset = 2, tok_colno = 3, tok_lineno = 1,
                    tok_fname = [], value = []\<rparr>],
                  []))
   \<and> 0 < tok_offset \<lparr>kind = PLUS, tok_offset = 1, tok_colno = 2, tok_lineno = 1,
                      tok_fname = [], value = []\<rparr>
   \<and> 0 < tok_offset \<lparr>kind = SEMICOLON, tok_offset = 2, tok_colno = 3, tok_lineno = 1,
                      tok_fname = [], value = []\<rparr>"
proof -
  let ?lx' = "\<lparr>buffer = ''+;'', buffer_capacity = 2, offset = 1,
                tokenList = [\<lparr>kind = PLUS, tok_offset = 1, tok_colno = 2, tok_lineno = 1,
                             tok_fname = [], value = []\<rparr>],
                tokenList_cap = 16, tokenList_size = 16,
                lineno = 1, colno = 2, fname = [], is_inside_str = False\<rparr>"
  let ?toks = "[\<lparr>kind = PLUS, tok_offset = 1, tok_colno = 2, tok_lineno = 1,
                tok_fname = [], value = []\<rparr>,
               \<lparr>kind = SEMICOLON, tok_offset = 2, tok_colno = 3, tok_lineno = 1,
                tok_fname = [], value = []\<rparr>,
               \<lparr>kind = TOK_EOF, tok_offset = 2, tok_colno = 3, tok_lineno = 1,
                tok_fname = [], value = []\<rparr>]"
  have r: "lexer_lex_round lexer_h (lexer_init lexer_h ''+;'') = Some (Inr (True, ?lx', []))"
    by code_simp
  have l: "lex lexer_h ''+;'' = Some (Inr (?toks, []))"
    by code_simp
  from lexer_token_location_after_lexeme
         [of lexer_h "lexer_init lexer_h ''+;''" ?lx' "[]" "''+;''" ?toks "[]"] r l
  show ?thesis
    by simp
qed

text \<open>
  The claim as stated fails: the buffer \<^verbatim>\<open>;\<close> has its only character at offset 0, line 1,
  column 1, and the \<open>SEMICOLON\<close> token records offset 1 and column 2.
\<close>

theorem lex_token_location_counterexample:
  "lex lexer_h '';'' =
     Some (Inr ([\<lparr>kind = SEMICOLON, tok_offset = 1, tok_colno = 2, tok_lineno = 1,
                  tok_fname = [], value = []\<rparr>,
                 \<lparr>kind = TOK_EOF, tok_offset = 1, tok_colno = 2, tok_lineno = 1,
                  tok_fname = [], value = []\<rparr>],
                []))"
  by code_simp

subsection \<open>Strings that are not closed\<close>

text \<open>
  The loop of \<^verbatim>\<open>lexer_lex_string\<close> leaves only at a double quote.  At the end of the buffer
  \<^verbatim>\<open>lexer_advance\<close> returns NUL for ever, and at a backslash \<^verbatim>\<open>lexer_lex_esc_char\<close> reads
  nothing; so the loop never ends when a backslash or the end of the buffer comes before the
  next double quote.
\<close>

lemma lexer_lex_string_loop_never_returns:
  assumes "lexer_lex_string_loop lx ch = Some r"
  shows "\<not> (buffer_capacity lx = length (buffer lx)
            \<and> CHR 0x22 \<notin> set (takeWhile (\<lambda>c. c \<noteq> CHR 0x5C) (ch # drop (offset lx) (buffer lx))))"
  using assms
proof (induct rule: lexer_lex_string_loop.raw_induct [rotated 1, consumes 1])
  case (1 loop lx ch r)
  show ?case
  proof
    assume inv: "buffer_capacity lx = length (buffer lx)
            \<and> CHR 0x22 \<notin> set (takeWhile (\<lambda>c. c \<noteq> CHR 0x5C) (ch # drop (offset lx) (buffer lx)))"
    then have nq: "ch \<noteq> CHR 0x22"
      by (auto split: if_splits)
    show False
    proof (cases "ch = CHR 0x5C")
      case True
      with 1(2) nq have "loop lx ch = Some r"
        by (simp add: lexer_lex_esc_char_def)
      from 1(1) [OF this] inv show False
        by simp
    next
      case False
      let ?lx1 = "snd (lexer_advance lx)" and ?c = "fst (lexer_advance lx)"
      from 1(2) nq False have "loop ?lx1 ?c = Some r"
        by simp
      from 1(1) [OF this]
      have n: "\<not> (buffer_capacity ?lx1 = length (buffer ?lx1)
            \<and> CHR 0x22 \<notin> set (takeWhile (\<lambda>c. c \<noteq> CHR 0x5C) (?c # drop (offset ?lx1) (buffer ?lx1))))" .
      have q: "CHR 0x22 \<notin> set (takeWhile (\<lambda>c. c \<noteq> CHR 0x5C) (drop (offset lx) (buffer lx)))"
        using inv False by simp
      show False
      proof (cases "offset lx < buffer_capacity lx")
        case True
        then have "lexer_advance lx = (buffer lx ! offset lx, lx\<lparr>colno := colno lx + 1, offset := offset lx + 1\<rparr>)"
          by (simp add: lexer_advance_def LEXER_INCREMENT_COLNO_def)
        moreover have "drop (offset lx) (buffer lx) = buffer lx ! offset lx # drop (offset lx + 1) (buffer lx)"
          using True inv by (simp add: Cons_nth_drop_Suc)
        ultimately show False
          using n q inv by simp
      next
        case False
        then have "lexer_advance lx = (nullchar, lx)"
          by (simp add: lexer_advance_def)
        then show False
          using n inv False by (simp add: nullchar_def)
      qed
    qed
  qed
qed

lemma lexer_lex_string_loop_None:
  assumes "buffer_capacity lx = length (buffer lx)"
    and "CHR 0x22 \<notin> set (takeWhile (\<lambda>c. c \<noteq> CHR 0x5C) (ch # drop (offset lx) (buffer lx)))"
  shows "lexer_lex_string_loop lx ch = None"
  using lexer_lex_string_loop_never_returns [of lx ch] assms
  by (cases "lexer_lex_string_loop lx ch") auto

lemma lexer_lex_string_None:
  assumes "buffer_capacity lx = length (buffer lx)" and "offset lx \<le> length (buffer lx)"
    and "CHR 0x22 \<notin> set (takeWhile (\<lambda>c. c \<noteq> CHR 0x5C) (drop (offset lx) (buffer lx)))"
  shows "lexer_lex_string H lx = None"
proof -
  let ?lx1 = "snd (lexer_advance lx)" and ?c = "fst (lexer_advance lx)"
  have rest: "?c # drop (offset ?lx1) (buffer ?lx1) = drop (offset lx) (buffer lx)
                \<or> ?c = nullchar \<and> drop (offset ?lx1) (buffer ?lx1) = []"
    using assms(1,2)
    by (auto simp: lexer_advance_def LEXER_INCREMENT_COLNO_def Cons_nth_drop_Suc)
  have "buffer_capacity ?lx1 = length (buffer ?lx1)"
    using assms(1) by (simp add: lexer_advance_def LEXER_INCREMENT_COLNO_def)
  moreover have "CHR 0x22 \<notin> set (takeWhile (\<lambda>c. c \<noteq> CHR 0x5C) (?c # drop (offset ?lx1) (buffer ?lx1)))"
    using rest
  proof
    assume e: "?c # drop (offset ?lx1) (buffer ?lx1) = drop (offset lx) (buffer lx)"
    show ?thesis
      unfolding e by (rule assms(3))
  next
    assume "?c = nullchar \<and> drop (offset ?lx1) (buffer ?lx1) = []"
    then show ?thesis
      by (simp add: nullchar_def)
  qed
  ultimately have loop: "lexer_lex_string_loop ?lx1 ?c = None"
    by (rule lexer_lex_string_loop_None)
  have "\<exists>c0. LEXER_CURR_CHAR lx = Inr c0"
    using assms(2) by (cases "offset lx < length (buffer lx)")
      (simp_all add: LEXER_CURR_CHAR_def buffer_at_def)
  then obtain c0 where c0: "LEXER_CURR_CHAR lx = Inr c0" ..
  have "c0 \<noteq> CHR 0x22"
  proof (cases "offset lx < length (buffer lx)")
    case True
    then have "drop (offset lx) (buffer lx) = c0 # drop (offset lx + 1) (buffer lx)"
      using c0 Cons_nth_drop_Suc [of "offset lx" "buffer lx"]
      by (simp add: LEXER_CURR_CHAR_def buffer_at_def)
    then show ?thesis
      using assms(3) by (auto split: if_splits)
  next
    case False
    then show ?thesis
      using c0 assms(2) by (auto simp: LEXER_CURR_CHAR_def buffer_at_def nullchar_def)
  qed
  then show ?thesis
    by (simp add: lexer_lex_string_def c0 Let_def loop)
qed

text \<open>
  C6.  The claim asks for lexing to end with a fatal diagnostic on a string literal that the
  buffer does not close, and on one that holds an unknown escape.  On both kinds of input
  \<^verbatim>\<open>lexer_lex\<close> never returns: here for the four characters \<^verbatim>\<open>"abc\<close> and for the five
  characters \<^verbatim>\<open>"a\q"\<close>, whatever the missing definitions are.
\<close>

theorem lex_string_never_returns:
  "lex H [CHR 0x22, CHR ''a'', CHR ''b'', CHR ''c''] = None
   \<and> lex H [CHR 0x22, CHR ''a'', CHR 0x5C, CHR ''q'', CHR 0x22] = None"
  by (simp add: lex_def lexer_lex_def lexer_init_def nullchar_def buffer_at_def
        lexer_lex_loop.simps lexer_lex_round_def lexer_advance_def LEXER_INCREMENT_COLNO_def
        lexer_peek_def lexer_lex_switch_def WHITESPACE_NO_NEWLINE_def ALPHA_def
        DIGIT_NON_ZERO_def lexer_lex_string_None)

subsection \<open>A buffer behind a byte order mark\<close>

text \<open>
  \<^verbatim>\<open>lexer_lex\<close> skips the three bytes of a UTF-8 byte order mark with \<^verbatim>\<open>lexer_advancen\<close>, which
  moves the offset and the column by three.  \<open>behind_bom\<close> is the lexer state that reads the
  same text three bytes later: the tokens made so far are three bytes later too, and three
  columns later when they are on the first line.
\<close>

definition bom :: string where
  "bom = [CHR 0xEF, CHR 0xBB, CHR 0xBF]"

definition bom_column :: "nat \<Rightarrow> nat \<Rightarrow> nat" where
  "bom_column line col = (if line = 1 then col + 3 else col)"

definition behind_bom_token :: "Token \<Rightarrow> Token" where
  "behind_bom_token t =
     t\<lparr>tok_offset := tok_offset t + 3, tok_colno := bom_column (tok_lineno t) (tok_colno t)\<rparr>"

definition behind_bom_diagnostic :: "diagnostic \<Rightarrow> diagnostic" where
  "behind_bom_diagnostic d =
     (case d of SyntaxError_InvalidCharacter c f line col \<Rightarrow>
        SyntaxError_InvalidCharacter c f line (bom_column line col))"

definition behind_bom :: "Lexer \<Rightarrow> Lexer" where
  "behind_bom lx =
     lx\<lparr>buffer := bom @ buffer lx, buffer_capacity := buffer_capacity lx + 3,
        offset := offset lx + 3, colno := bom_column (lineno lx) (colno lx),
        tokenList := map behind_bom_token (tokenList lx)\<rparr>"

lemma lineno_behind_bom [simp]: "lineno (behind_bom lx) = lineno lx"
  by (simp add: behind_bom_def)

lemma lexer_advance_behind_bom [simp]:
  "lexer_advance (behind_bom lx) = (fst (lexer_advance lx), behind_bom (snd (lexer_advance lx)))"
  by (simp add: lexer_advance_def LEXER_INCREMENT_COLNO_def behind_bom_def bom_def bom_column_def)

lemma lexer_advance_lineno [simp]: "lineno (snd (lexer_advance lx)) = lineno lx"
  by (simp add: lexer_advance_def LEXER_INCREMENT_COLNO_def)

lemma LEXER_INCREMENT_OFFSET_behind_bom [simp]:
  "LEXER_INCREMENT_OFFSET (behind_bom lx) = behind_bom (LEXER_INCREMENT_OFFSET lx)"
  by (simp add: LEXER_INCREMENT_OFFSET_def behind_bom_def bom_column_def)

lemma newline_behind_bom:
  "1 \<le> lineno lx \<Longrightarrow>
     LEXER_RESET_COLNO (LEXER_INCREMENT_LINENO (behind_bom lx))
       = behind_bom (LEXER_RESET_COLNO (LEXER_INCREMENT_LINENO lx))"
  by (simp add: LEXER_RESET_COLNO_def LEXER_INCREMENT_LINENO_def behind_bom_def bom_column_def)

lemma lexer_peek_behind_bom [simp]: "lexer_peek (behind_bom lx) = lexer_peek lx"
  by (simp add: lexer_peek_def buffer_at_def behind_bom_def bom_def nth_append)

lemma LEXER_CURR_CHAR_behind_bom [simp]: "LEXER_CURR_CHAR (behind_bom lx) = LEXER_CURR_CHAR lx"
  by (simp add: LEXER_CURR_CHAR_def buffer_at_def behind_bom_def bom_def nth_append)

lemma lexer_maketoken_behind_bom [simp]:
  "lexer_maketoken H (behind_bom lx) k = map_sum id behind_bom (lexer_maketoken H lx k)"
  by (simp add: lexer_maketoken_def lexer_tokenlist_append_def tokenList_store_def behind_bom_def
                behind_bom_token_def)

lemma lexer_makestrtoken_behind_bom [simp]:
  "lexer_makestrtoken H (behind_bom lx) v = map_sum id behind_bom (lexer_makestrtoken H lx v)"
  by (simp add: lexer_makestrtoken_def lexer_tokenlist_append_def tokenList_store_def behind_bom_def
                behind_bom_token_def)

lemma lexer_makeidenttoken_behind_bom [simp]:
  "lexer_makeidenttoken H (behind_bom lx) v = map_sum id behind_bom (lexer_makeidenttoken H lx v)"
  by (simp add: lexer_makeidenttoken_def lexer_tokenlist_append_def tokenList_store_def behind_bom_def
                behind_bom_token_def)

lemma lexer_lex_sl_comment_loop_behind_bom [simp]:
  "lexer_lex_sl_comment_loop (behind_bom lx) ch = behind_bom (lexer_lex_sl_comment_loop lx ch)"
proof (induction lx ch rule: lexer_lex_sl_comment_loop.induct)
  case (1 lx ch)
  then show ?case
    by (subst lexer_lex_sl_comment_loop.simps, subst (2) lexer_lex_sl_comment_loop.simps) simp
qed

lemma lexer_lex_ml_comment_skip_behind_bom [simp]:
  "lexer_lex_ml_comment_skip (behind_bom lx) ch =
     (fst (lexer_lex_ml_comment_skip lx ch), behind_bom (snd (lexer_lex_ml_comment_skip lx ch)))"
proof (induction lx ch rule: lexer_lex_ml_comment_skip.induct)
  case (1 lx ch)
  then show ?case
    by (subst lexer_lex_ml_comment_skip.simps, subst (2 3) lexer_lex_ml_comment_skip.simps) simp
qed

lemma lexer_lex_ml_comment_round_behind_bom:
  "lexer_lex_ml_comment_round lx ch = (ch2, lx2, f2) \<Longrightarrow>
     lexer_lex_ml_comment_round (behind_bom lx) ch = (ch2, behind_bom lx2, f2)"
  by (auto simp: lexer_lex_ml_comment_round_def split: prod.splits)

lemma lexer_lex_ml_comment_loop_behind_bom [simp]:
  "lexer_lex_ml_comment_loop (behind_bom lx) ch found =
     (fst (lexer_lex_ml_comment_loop lx ch found), behind_bom (snd (lexer_lex_ml_comment_loop lx ch found)))"
proof (induction lx ch found rule: lexer_lex_ml_comment_loop.induct)
  case (1 lx ch found)
  show ?case
  proof (cases "ch \<noteq> nullchar \<and> \<not> (ch = CHR ''/'' \<and> found)")
    case True
    obtain ch2 lx2 f2 where r: "lexer_lex_ml_comment_round lx ch = (ch2, lx2, f2)"
      by (cases "lexer_lex_ml_comment_round lx ch")
    have ih: "lexer_lex_ml_comment_loop (behind_bom lx2) ch2 f2 =
            (fst (lexer_lex_ml_comment_loop lx2 ch2 f2), behind_bom (snd (lexer_lex_ml_comment_loop lx2 ch2 f2)))"
      using 1 [OF True] r by simp
    have l: "lexer_lex_ml_comment_loop lx ch found = lexer_lex_ml_comment_loop lx2 ch2 f2"
      using True r by (subst lexer_lex_ml_comment_loop.simps) simp
    have "lexer_lex_ml_comment_loop (behind_bom lx) ch found
            = lexer_lex_ml_comment_loop (behind_bom lx2) ch2 f2"
      using True lexer_lex_ml_comment_round_behind_bom [OF r]
      by (subst lexer_lex_ml_comment_loop.simps) simp
    then show ?thesis
      by (simp add: ih l)
  next
    case False
    then have "lexer_lex_ml_comment_loop lx ch found = (ch, lx)"
      "lexer_lex_ml_comment_loop (behind_bom lx) ch found = (ch, behind_bom lx)"
      by (subst lexer_lex_ml_comment_loop.simps, auto)+
    then show ?thesis
      by simp
  qed
qed

lemma lexer_lex_sl_comment_behind_bom [simp]:
  "lexer_lex_sl_comment (behind_bom lx) = behind_bom (lexer_lex_sl_comment lx)"
  by (simp add: lexer_lex_sl_comment_def)

lemma lexer_lex_ml_comment_behind_bom [simp]:
  "lexer_lex_ml_comment (behind_bom lx) = behind_bom (lexer_lex_ml_comment lx)"
  by (simp add: lexer_lex_ml_comment_def split: prod.splits)

lemma lexer_lex_identifier_loop_behind_bom [simp]:
  "lexer_lex_identifier_loop (behind_bom lx) ch = behind_bom (lexer_lex_identifier_loop lx ch)"
proof (induction lx ch rule: lexer_lex_identifier_loop.induct)
  case (1 lx ch)
  then show ?case
    by (subst lexer_lex_identifier_loop.simps, subst (2) lexer_lex_identifier_loop.simps) simp
qed

lemma lexer_lex_digit_loop_behind_bom [simp]:
  "lexer_lex_digit_loop (behind_bom lx) ch = behind_bom (lexer_lex_digit_loop lx ch)"
proof (induction lx ch rule: lexer_lex_digit_loop.induct)
  case (1 lx ch)
  then show ?case
    by (subst lexer_lex_digit_loop.simps, subst (2) lexer_lex_digit_loop.simps) simp
qed

lemma lexer_lex_string_loop_behind_bom:
  assumes "lexer_lex_string_loop lx ch = Some r"
  shows "lexer_lex_string_loop (behind_bom lx) ch = Some (fst r, behind_bom (snd r))"
  using assms
proof (induct rule: lexer_lex_string_loop.raw_induct [rotated 1, consumes 1])
  case (1 loop lx ch r)
  show ?case
  proof (cases "ch = CHR 0x22")
    case True
    with 1(2) show ?thesis
      by (subst lexer_lex_string_loop.simps) auto
  next
    case nq: False
    show ?thesis
    proof (cases "ch = CHR 0x5C")
      case True
      with 1(2) nq have "loop lx ch = Some r"
        by (simp add: lexer_lex_esc_char_def)
      from 1(1) [OF this] True nq show ?thesis
        by (subst lexer_lex_string_loop.simps) (simp add: lexer_lex_esc_char_def)
    next
      case False
      with 1(2) nq have "loop (snd (lexer_advance lx)) (fst (lexer_advance lx)) = Some r"
        by simp
      from 1(1) [OF this] False nq show ?thesis
        by (subst lexer_lex_string_loop.simps) simp
    qed
  qed
qed

lemma substr_behind_bom:
  assumes "substr n buf start len = Inr v"
  shows "substr n (bom @ buf) (start + 3) len = Inr v"
proof -
  from assms have *: "0 \<le> start" "0 \<le> len" "start + len \<le> int (length buf)"
    "len < int n" "v = take (nat len) (drop (nat start) buf)"
    by (auto simp: substr_def split: if_splits)
  have "nat (start + 3) = length bom + nat start"
    using *(1) by (simp add: bom_def)
  then have "drop (nat (start + 3)) (bom @ buf) = drop (nat start) buf"
    by simp
  then show ?thesis
    using * by (simp add: substr_def bom_def)
qed

lemma offset_behind_bom [simp]: "offset (behind_bom lx) = offset lx + 3"
  by (simp add: behind_bom_def)

lemma buffer_behind_bom [simp]: "buffer (behind_bom lx) = bom @ buffer lx"
  by (simp add: behind_bom_def)

lemma lexer_lex_identifier_behind_bom:
  assumes "lexer_lex_identifier H lx = Inr lx'"
  shows "lexer_lex_identifier H (behind_bom lx) = Inr (behind_bom lx')"
proof -
  let ?lx1 = "snd (lexer_advance lx)"
  let ?lx2 = "lexer_lex_identifier_loop ?lx1 (fst (lexer_advance lx))"
  let ?start = "int (offset ?lx1) - 1 - 1"
  let ?len = "int (offset ?lx2) - (int (offset ?lx1) - 1)"
  from assms obtain v
    where v: "substr (MAX_TOKEN_SIZE H) (buffer ?lx2) ?start ?len = Inr v" and n: "?len \<noteq> 0"
      and lx': "lexer_makeidenttoken H ?lx2 v = Inr lx'"
    by (auto simp: lexer_lex_identifier_def Let_def split: if_splits sum.splits)
  have e1: "int (offset ?lx1 + 3) - 1 - 1 = ?start + 3"
    and e2: "int (offset ?lx2 + 3) - (int (offset ?lx1 + 3) - 1) = ?len"
    by simp_all
  show ?thesis
    by (simp only: lexer_lex_identifier_def Let_def lexer_advance_behind_bom fst_conv snd_conv
          lexer_lex_identifier_loop_behind_bom offset_behind_bom buffer_behind_bom e1 e2
          substr_behind_bom [OF v] n if_False sum.case lexer_makeidenttoken_behind_bom lx'
          map_sum.simps)
qed

lemma lexer_lex_digit_behind_bom [simp]:
  "lexer_lex_digit H (behind_bom lx) = map_sum id behind_bom (lexer_lex_digit H lx)"
  by (simp add: lexer_lex_digit_def split: sum.splits)

lemma lexer_lex_string_behind_bom:
  assumes "lexer_lex_string H lx = Some (Inr lx')"
  shows "lexer_lex_string H (behind_bom lx) = Some (Inr (behind_bom lx'))"
proof -
  let ?lx1 = "snd (lexer_advance lx)" and ?ch = "fst (lexer_advance lx)"
  from assms obtain c0 ch' lx2 v
    where c0: "LEXER_CURR_CHAR lx = Inr c0" and nq: "c0 \<noteq> CHR 0x22"
      and l: "lexer_lex_string_loop ?lx1 ?ch = Some (ch', lx2)" and q: "ch' = CHR 0x22"
      and d: "int (offset lx2) - (int (offset ?lx1) - 1) \<noteq> 0"
      and v: "substr (MAX_TOKEN_SIZE H) (buffer lx2) (int (offset ?lx1) - 1)
                (int (offset lx2) - (int (offset ?lx1) - 1) - 1) = Inr v"
      and lx': "lexer_makestrtoken H lx2 v = Inr lx'"
    by (auto simp: lexer_lex_string_def Let_def split: if_splits sum.splits option.splits)
  have l': "lexer_lex_string_loop (behind_bom ?lx1) ?ch = Some (CHR 0x22, behind_bom lx2)"
    using lexer_lex_string_loop_behind_bom [OF l] q by simp
  have e1: "int (offset ?lx1 + 3) - 1 = (int (offset ?lx1) - 1) + 3"
    by simp
  have e2: "int (offset lx2 + 3) - (int (offset ?lx1) - 1 + 3)
              = int (offset lx2) - (int (offset ?lx1) - 1)"
    by simp
  have nq': "(c0 = CHR 0x22) = False" and tt: "(CHR 0x22 \<noteq> CHR 0x22) = False"
    using nq by simp_all
  have d': "(int (offset lx2) - (int (offset ?lx1) - 1) = 0) = False"
    using d by simp
  show ?thesis
    by (simp only: lexer_lex_string_def Let_def LEXER_CURR_CHAR_behind_bom c0 sum.case nq' if_False
          lexer_advance_behind_bom fst_conv snd_conv l' option.case prod.case tt
          offset_behind_bom buffer_behind_bom e1 e2 d' substr_behind_bom [OF v]
          lexer_makestrtoken_behind_bom lx' map_sum.simps)
qed


lemma fname_behind_bom [simp]: "fname (behind_bom lx) = fname lx"
  by (simp add: behind_bom_def)

lemma colno_behind_bom [simp]: "colno (behind_bom lx) = bom_column (lineno lx) (colno lx)"
  by (simp add: behind_bom_def)

definition behind_bom_switch ::
  "(fault + TokenKind \<times> Lexer \<times> diagnostic list) option
     \<Rightarrow> (fault + TokenKind \<times> Lexer \<times> diagnostic list) option" where
  "behind_bom_switch r =
     map_option (map_sum id (\<lambda>(k, lx2, msgs). (k, behind_bom lx2, map behind_bom_diagnostic msgs))) r"

lemma behind_bom_switch_simps [simp]:
  "behind_bom_switch None = None"
  "behind_bom_switch (Some (Inl f)) = Some (Inl f)"
  "behind_bom_switch (Some (Inr (k, lx2, msgs)))
     = Some (Inr (k, behind_bom lx2, map behind_bom_diagnostic msgs))"
  by (simp_all add: behind_bom_switch_def)

lemma tokenkind_is_behind_bom [simp]:
  "tokenkind_is K (behind_bom lx) = behind_bom_switch (tokenkind_is K lx)"
  by (simp add: tokenkind_is_def)

lemma lexer_lex_switch_operator_behind_bom:
  assumes "\<not> WHITESPACE_NO_NEWLINE c" "c \<noteq> CHR 0x0A" "\<not> (ALPHA c \<or> c = CHR ''_'')"
    "\<not> DIGIT_NON_ZERO c" "c \<noteq> CHR 0x22"
  shows "lexer_lex_switch H (behind_bom lx) c n = behind_bom_switch (lexer_lex_switch H lx c n)"
  using assms unfolding lexer_lex_switch_def
  by (simp add: behind_bom_diagnostic_def split: sum.splits)

lemma lexer_lex_switch_behind_bom:
  assumes "lexer_lex_switch H lx c n = Some (Inr (k, lx2, msgs))" and "1 \<le> lineno lx"
  shows "lexer_lex_switch H (behind_bom lx) c n =
           Some (Inr (k, behind_bom lx2, map behind_bom_diagnostic msgs))"
proof -
  consider (white) "WHITESPACE_NO_NEWLINE c"
    | (newline) "\<not> WHITESPACE_NO_NEWLINE c" "c = CHR 0x0A"
    | (ident) "ALPHA c \<or> c = CHR ''_''" "\<not> WHITESPACE_NO_NEWLINE c" "c \<noteq> CHR 0x0A"
    | (digit) "DIGIT_NON_ZERO c" "\<not> (ALPHA c \<or> c = CHR ''_'')" "\<not> WHITESPACE_NO_NEWLINE c"
        "c \<noteq> CHR 0x0A"
    | (quote) "c = CHR 0x22"
    | (operator) "\<not> WHITESPACE_NO_NEWLINE c" "c \<noteq> CHR 0x0A" "\<not> (ALPHA c \<or> c = CHR ''_'')"
        "\<not> DIGIT_NON_ZERO c" "c \<noteq> CHR 0x22"
    by blast
  then show ?thesis
  proof cases
    case white
    with assms show ?thesis
      by (simp add: lexer_lex_switch_def tokenkind_is_def)
  next
    case newline
    with assms show ?thesis
      by (simp add: lexer_lex_switch_def newline_behind_bom tokenkind_is_def del: tokenkind_is_behind_bom)
  next
    case ident
    with assms obtain lx' where i: "lexer_lex_identifier H lx = Inr lx'" and r: "lx2 = lx'" "k = - 1" "msgs = []"
      by (auto simp: lexer_lex_switch_def split: sum.splits)
    show ?thesis
      using ident r by (simp add: lexer_lex_switch_def lexer_lex_identifier_behind_bom [OF i] tokenkind_is_def)
  next
    case digit
    with assms show ?thesis
      by (auto simp: lexer_lex_switch_def tokenkind_is_def split: sum.splits)
  next
    case quote
    then have nw: "\<not> WHITESPACE_NO_NEWLINE c" "c \<noteq> CHR 0x0A" "\<not> (ALPHA c \<or> c = CHR ''_'')"
      "\<not> DIGIT_NON_ZERO c"
      by (simp_all add: WHITESPACE_NO_NEWLINE_def ALPHA_def DIGIT_NON_ZERO_def)
    show ?thesis
    proof (cases "n = CHR 0x22")
      case True
      with assms quote nw show ?thesis
        by (auto simp: lexer_lex_switch_def tokenkind_is_def split: sum.splits)
    next
      case False
      with assms quote nw obtain lx' where i: "lexer_lex_string H lx = Some (Inr lx')" and r: "lx2 = lx'"
          "k = - 1" "msgs = []"
        by (auto simp: lexer_lex_switch_def split: sum.splits option.splits)
      show ?thesis
        using quote nw r False by (simp add: lexer_lex_switch_def lexer_lex_string_behind_bom [OF i] tokenkind_is_def)
    qed
  next
    case operator
    then show ?thesis
      using assms(1) by (simp add: lexer_lex_switch_operator_behind_bom)
  qed
qed


lemma lexer_lex_round_lineno:
  assumes "lexer_lex_round H lx = Some (Inr (again, lx', msgs))"
  shows "lineno lx \<le> lineno lx'"
proof (cases again)
  case True
  with assms lexer_lex_round_again [of H lx lx' msgs] show ?thesis
    by (auto simp: scan_adds_def)
next
  case False
  with assms lexer_lex_round_eof [of H lx lx' msgs] show ?thesis
    by auto
qed

lemma lexer_lex_round_behind_bom:
  assumes "lexer_lex_round H lx = Some (Inr (again, lx', msgs))" and "1 \<le> lineno lx"
  shows "lexer_lex_round H (behind_bom lx) =
           Some (Inr (again, behind_bom lx', map behind_bom_diagnostic msgs))"
proof -
  let ?c = "fst (lexer_advance lx)" and ?lx1 = "snd (lexer_advance lx)"
  from assms(1) obtain n where p: "lexer_peek ?lx1 = Inr n"
    by (auto simp: lexer_lex_round_def split: sum.splits)
  show ?thesis
  proof (cases "?c = nullchar")
    case True
    with assms(1) p show ?thesis
      by (auto simp: lexer_lex_round_def)
  next
    case False
    with assms(1) p obtain k lx2
      where sw: "lexer_lex_switch H ?lx1 ?c n = Some (Inr (k, lx2, msgs))"
        and r: "again" "k = - 1 \<and> lx' = lx2 \<or> k \<noteq> - 1 \<and> lexer_maketoken H lx2 k = Inr lx'"
      by (auto simp: lexer_lex_round_def split: sum.splits option.splits if_splits)
    have "1 \<le> lineno ?lx1"
      using assms(2) by simp
    from lexer_lex_switch_behind_bom [OF sw this] False p r show ?thesis
      by (auto simp: lexer_lex_round_def)
  qed
qed

lemma lexer_lex_loop_behind_bom:
  assumes "lexer_lex_loop H lx err = Some y"
  shows "\<forall>lxf errf. 1 \<le> lineno lx \<longrightarrow> y = Inr (lxf, errf) \<longrightarrow>
           lexer_lex_loop H (behind_bom lx) (map behind_bom_diagnostic err)
             = Some (Inr (behind_bom lxf, map behind_bom_diagnostic errf))"
  using assms
proof (induct rule: lexer_lex_loop.raw_induct [rotated 1, consumes 1])
  case (1 loop H lx err y)
  show ?case
  proof (intro allI impI)
    fix lxf errf
    assume line: "1 \<le> lineno lx" and y: "y = Inr (lxf, errf)"
    from 1(2) y obtain again lx' msgs
      where r: "lexer_lex_round H lx = Some (Inr (again, lx', msgs))"
        and b: "(if again then loop H lx' (err @ msgs)
                 else (case lexer_maketoken H lx' TOK_EOF of
                         Inl f \<Rightarrow> Some (Inl f)
                       | Inr lxf \<Rightarrow> Some (Inr (lxf, err)))) = Some y"
      by (auto split: option.splits sum.splits)
    note r' = lexer_lex_round_behind_bom [OF r line]
    show "lexer_lex_loop H (behind_bom lx) (map behind_bom_diagnostic err)
            = Some (Inr (behind_bom lxf, map behind_bom_diagnostic errf))"
    proof (cases again)
      case True
      with b have "loop H lx' (err @ msgs) = Some y"
        by simp
      moreover have "1 \<le> lineno lx'"
        using lexer_lex_round_lineno [OF r] line by simp
      ultimately have "lexer_lex_loop H (behind_bom lx') (map behind_bom_diagnostic (err @ msgs))
              = Some (Inr (behind_bom lxf, map behind_bom_diagnostic errf))"
        using 1(1) y by blast
      then show ?thesis
        using True r' by (subst lexer_lex_loop.simps) simp
    next
      case False
      with b y have "lexer_maketoken H lx' TOK_EOF = Inr lxf" "errf = err"
        by (auto split: sum.splits)
      then show ?thesis
        using False r' by (subst lexer_lex_loop.simps) simp
    qed
  qed
qed

text \<open>
  C7 (as amended).  For a source buffer \<open>s\<close> that is not empty and does not itself begin
  with the byte order mark, if lexing \<open>s\<close> returns a token list, then lexing the three bytes
  \<^verbatim>\<open>EF BB BF\<close> followed by \<open>s\<close> returns the tokens of the same kinds and values on the same
  lines, every offset greater by three and every column on the first line greater by three;
  the mark itself makes no token.
\<close>

theorem lex_behind_bom:
  assumes "lex H s = Some (Inr (toks, err))"
    and "s \<noteq> []" and "hd s \<noteq> nullchar" and "take 3 s \<noteq> bom"
  shows "lex H (bom @ s) = Some (Inr (map behind_bom_token toks, map behind_bom_diagnostic err))"
proof -
  let ?s' = "takeWhile (\<lambda>c. c \<noteq> nullchar) s"
  have ne: "?s' \<noteq> []"
    using assms(2,3) by (cases s) simp_all
  have nb: "take 3 ?s' \<noteq> bom"
  proof
    assume b: "take 3 ?s' = bom"
    then have "length ?s' \<ge> 3"
      by (metis bom_def length_take min.cobounded1 length_Cons list.size(3) numeral_3_eq_3)
    then have "take 3 (?s' @ dropWhile (\<lambda>c. c \<noteq> nullchar) s) = take 3 ?s'"
      by (simp del: takeWhile_dropWhile_id)
    then have "take 3 s = take 3 ?s'"
      by simp
    then show False
      using b assms(4) by simp
  qed
  have no_bom: "\<not> (buffer_at (lexer_init H s) 0 = Inr (CHR 0xEF) \<and> buffer_at (lexer_init H s) 1 = Inr (CHR 0xBB)
            \<and> buffer_at (lexer_init H s) 2 = Inr (CHR 0xBF))"
  proof
    assume a: "buffer_at (lexer_init H s) 0 = Inr (CHR 0xEF) \<and> buffer_at (lexer_init H s) 1 = Inr (CHR 0xBB)
            \<and> buffer_at (lexer_init H s) 2 = Inr (CHR 0xBF)"
    then have "length ?s' \<ge> 3"
      by (auto simp: buffer_at_def lexer_init_def nullchar_def split: if_splits)
    then obtain a b c r where "?s' = a # b # c # r"
      by (metis Suc_le_length_iff numeral_3_eq_3)
    with a nb show False
      by (auto simp: buffer_at_def lexer_init_def bom_def simp del: takeWhile_eq_Nil_iff)
  qed
  from assms(1) no_bom obtain lxf
    where l: "lexer_lex_loop H (lexer_init H s) [] = Some (Inr (lxf, err))" and tf: "tokenList lxf = toks"
    by (auto simp: lex_def lexer_lex_def split: option.splits sum.splits)
  have "1 \<le> lineno (lexer_init H s)"
    by (simp add: lexer_init_def)
  with lexer_lex_loop_behind_bom [OF l]
  have l': "lexer_lex_loop H (behind_bom (lexer_init H s)) [] = Some (Inr (behind_bom lxf, map behind_bom_diagnostic err))"
    by simp
  have tw: "takeWhile (\<lambda>c. c \<noteq> nullchar) (bom @ s) = bom @ ?s'"
    by (simp add: bom_def nullchar_def)
  have start: "lexer_lex H (lexer_init H (bom @ s)) = lexer_lex_loop H (behind_bom (lexer_init H s)) []"
    using ne
    by (simp add: lexer_lex_def lexer_init_def tw buffer_at_def lexer_advancen_def behind_bom_def
                  bom_column_def)
       (simp add: bom_def numeral_3_eq_3)
  show ?thesis
    using l' tf by (simp add: lex_def start behind_bom_def)
qed

theorem lex_behind_bom_witness:
  "lex lexer_h ''(;'' =
     Some (Inr ([\<lparr>kind = LPAREN, tok_offset = 1, tok_colno = 2, tok_lineno = 1,
                  tok_fname = [], value = []\<rparr>,
                 \<lparr>kind = SEMICOLON, tok_offset = 2, tok_colno = 3, tok_lineno = 1,
                  tok_fname = [], value = []\<rparr>,
                 \<lparr>kind = TOK_EOF, tok_offset = 2, tok_colno = 3, tok_lineno = 1,
                  tok_fname = [], value = []\<rparr>],
                []))
   \<and> ''(;'' \<noteq> [] \<and> hd ''(;'' \<noteq> nullchar \<and> take 3 ''(;'' \<noteq> bom
   \<and> lex lexer_h (bom @ ''(;'') =
       Some (Inr ([\<lparr>kind = LPAREN, tok_offset = 4, tok_colno = 5, tok_lineno = 1,
                    tok_fname = [], value = []\<rparr>,
                   \<lparr>kind = SEMICOLON, tok_offset = 5, tok_colno = 6, tok_lineno = 1,
                    tok_fname = [], value = []\<rparr>,
                   \<lparr>kind = TOK_EOF, tok_offset = 5, tok_colno = 6, tok_lineno = 1,
                    tok_fname = [], value = []\<rparr>],
                  []))"
proof -
  have h1: "lex lexer_h ''(;'' =
     Some (Inr ([\<lparr>kind = LPAREN, tok_offset = 1, tok_colno = 2, tok_lineno = 1,
                  tok_fname = [], value = []\<rparr>,
                 \<lparr>kind = SEMICOLON, tok_offset = 2, tok_colno = 3, tok_lineno = 1,
                  tok_fname = [], value = []\<rparr>,
                 \<lparr>kind = TOK_EOF, tok_offset = 2, tok_colno = 3, tok_lineno = 1,
                  tok_fname = [], value = []\<rparr>],
                []))"
    by code_simp
  have h2: "''(;'' \<noteq> []" and h3: "hd ''(;'' \<noteq> nullchar" and h4: "take 3 ''(;'' \<noteq> bom"
    by (simp_all add: nullchar_def bom_def)
  from lex_behind_bom [OF h1 h2 h3 h4] h1 h2 h3 h4 show ?thesis
    by (simp add: behind_bom_token_def bom_column_def)
qed

text \<open>
  The claim as stated fails on the locations: behind the mark the \<open>SEMICOLON\<close> token of the
  buffer \<^verbatim>\<open>;\<close> is at offset 4, column 5, and without the mark at offset 1, column 2.
\<close>

theorem lex_bom_locations_counterexample:
  "lex lexer_h (CHR 0xEF # CHR 0xBB # CHR 0xBF # '';'') =
     Some (Inr ([\<lparr>kind = SEMICOLON, tok_offset = 4, tok_colno = 5, tok_lineno = 1,
                  tok_fname = [], value = []\<rparr>,
                 \<lparr>kind = TOK_EOF, tok_offset = 4, tok_colno = 5, tok_lineno = 1,
                  tok_fname = [], value = []\<rparr>],
                []))
   \<and> lex lexer_h '';'' =
     Some (Inr ([\<lparr>kind = SEMICOLON, tok_offset = 1, tok_colno = 2, tok_lineno = 1,
                  tok_fname = [], value = []\<rparr>,
                 \<lparr>kind = TOK_EOF, tok_offset = 1, tok_colno = 2, tok_lineno = 1,
                  tok_fname = [], value = []\<rparr>],
                []))"
  by code_simp

text \<open>
  \<^verbatim>\<open>lexer_advancen\<close> does not move when fewer than \<open>n + 1\<close> characters are left, so a mark with
  nothing behind it is not skipped: its three bytes are lexed as invalid characters.
\<close>

lemma lex_bom_alone:
  "lex lexer_h [CHR 0xEF, CHR 0xBB, CHR 0xBF] =
     Some (Inr ([\<lparr>kind = TOK_ILLEGAL, tok_offset = 1, tok_colno = 2, tok_lineno = 1,
                  tok_fname = [], value = []\<rparr>,
                 \<lparr>kind = TOK_ILLEGAL, tok_offset = 2, tok_colno = 3, tok_lineno = 1,
                  tok_fname = [], value = []\<rparr>,
                 \<lparr>kind = TOK_ILLEGAL, tok_offset = 3, tok_colno = 4, tok_lineno = 1,
                  tok_fname = [], value = []\<rparr>,
                 \<lparr>kind = TOK_EOF, tok_offset = 3, tok_colno = 4, tok_lineno = 1,
                  tok_fname = [], value = []\<rparr>],
                [SyntaxError_InvalidCharacter (CHR 0xEF) [] 1 2,
                 SyntaxError_InvalidCharacter (CHR 0xBB) [] 1 3,
                 SyntaxError_InvalidCharacter (CHR 0xBF) [] 1 4]))"
  by code_simp

section \<open>The parser (\<^verbatim>\<open>adorad/compiler/parser.c\<close>)\<close>

text \<open>
  How a call of the parser can end without a value: \<^verbatim>\<open>panic\<close> (and \<^verbatim>\<open>ast_error\<close>, which is
  \<^verbatim>\<open>panic\<close> with \<^verbatim>\<open>ErrorParseError\<close>) with its error kind, format string and arguments; a read
  through a null pointer; a read of a token behind the end of the token vector; a failed
  \<^verbatim>\<open>CORETEN_CHECK\<close>; \<^verbatim>\<open>unreachable()\<close>; the end of a non-void function reached without a
  \<^verbatim>\<open>return\<close>; and \<^verbatim>\<open>ast_clone_node\<close> applied to an enumerator instead of a node, as
  \<^verbatim>\<open>ast_parse_if_prefix\<close> does (it panics if the enumerator is 0 and reads through an invalid
  pointer otherwise).  The calls of \<^verbatim>\<open>free\<close> are left out.
\<close>

datatype ErrorKind = ErrorParseError | ErrorUnexpectedToken | ErrorUnexpectedNull

datatype format_arg = KindArg TokenKind | ValueArg string

datatype abort =
    Panic ErrorKind string "format_arg list"
  | NullDereference
  | TokenOutOfBounds
  | CheckFailure
  | UnreachableReached
  | NoReturnValue
  | CloneOfEnumerator

text \<open>The kinds of the table \<^verbatim>\<open>precedence_table\<close>.\<close>

datatype BinaryOpKind =
    BinaryOpKindMult | BinaryOpKindMod | BinaryOpKindDiv
  | BinaryOpKindAdd | BinaryOpKindSubtract | BinaryOpKindAssignmentPlus
  | BinaryOpKindAssignmentMinus | BinaryOpKindBitshitLeft | BinaryOpKindBitshitRight
  | BinaryOpKindCmpEqual | BinaryOpKindCmpNotEqual | BinaryOpKindCmpGreaterThan
  | BinaryOpKindCmpLessThan | BinaryOpKindCmpGreaterThanorEqualTo
  | BinaryOpKindCmpLessThanorEqualTo | BinaryOpKindBoolAnd | BinaryOpKindBoolOr

text \<open>
  Modelled from the spec: the declaration of \<^verbatim>\<open>AstNode\<close> is in a header that is not among the
  sources.  The spec has a tagged variant with one payload for each kind; the constructors below
  are the kinds that the modelled functions make or test, with the payload fields that
  \<^verbatim>\<open>parser.c\<close> writes (a loop node keeps the parts that its own parser has made in a list).  A
  pointer to a node that may be null is an \<open>AstNode option\<close>, and a field that \<^verbatim>\<open>calloc\<close> has
  zeroed is \<open>None\<close> or \<open>False\<close>.  \<^verbatim>\<open>ast_create_node\<close> allocates the node and nothing behind
  its \<^verbatim>\<open>data.stmt\<close> and \<^verbatim>\<open>data.expr\<close>; the model takes the payload to be there with the node, as
  in the spec's variant, so that a write to a payload field makes the field of the constructor.
\<close>

datatype AstNode =
    VarDecl string bool bool bool "AstNode option"
  | Defer "AstNode option"
  | IfExpr "AstNode option" "AstNode option" bool "AstNode option"
  | Block "string option" "AstNode list"
  | LoopCExpr bool "string option" "AstNode list"
  | LoopWhileExpr bool "string option" "AstNode list"
  | LoopInExpr bool "string option" "AstNode list"
  | BinaryOpExpr BinaryOpKind "AstNode option" "AstNode option"
  | Break "string option" "AstNode option"
  | Continue "string option"
  | Return "AstNode option"
  | Identifier
  | IntLiteral
  | BoolLiteral bool


text \<open>
  The parser state.  \<^verbatim>\<open>curr_tok\<close> is a pointer into the token vector: here the index of the
  token it points to.  A pointer to a token that may be null is a \<open>Token option\<close>.
\<close>

record Parser =
  toklist :: "Token list"
  curr_tok :: nat
  num_tokens :: nat
  num_lines :: nat

text \<open>
  The outcome of a call: an abort with the parser state in which it happened, or a value and
  the new state; \<open>None\<close> is a call that does not return.
\<close>

type_synonym 'a outcome = "(abort \<times> Parser + 'a \<times> Parser) option"

definition returns :: "'a \<Rightarrow> Parser \<Rightarrow> 'a outcome" where
  "returns x p = Some (Inr (x, p))"

definition aborts :: "abort \<Rightarrow> Parser \<Rightarrow> 'a outcome" where
  "aborts a p = Some (Inl (a, p))"

definition and_then :: "'a outcome \<Rightarrow> ('a \<Rightarrow> Parser \<Rightarrow> 'b outcome) \<Rightarrow> 'b outcome" where
  "and_then r f =
     (case r of
        None \<Rightarrow> None
      | Some (Inl e) \<Rightarrow> Some (Inl e)
      | Some (Inr (x, p)) \<Rightarrow> f x p)"

definition parser_init :: "Token list \<Rightarrow> Parser" where
  "parser_init toks = \<lparr>toklist = toks, curr_tok = 0, num_tokens = length toks, num_lines = 0\<rparr>"

text \<open>A read through a pointer into the token vector.\<close>

definition deref :: "nat \<Rightarrow> Parser \<Rightarrow> Token outcome" where
  "deref i p =
     (if i < length (toklist p) then returns (toklist p ! i) p else aborts TokenOutOfBounds p)"

definition parser_peek_token :: "Parser \<Rightarrow> nat outcome" where
  "parser_peek_token p = returns (curr_tok p) p"

definition parser_chomp :: "Parser \<Rightarrow> nat outcome" where
  "parser_chomp p = and_then (parser_peek_token p) (\<lambda>tok p. returns tok (p\<lparr>curr_tok := curr_tok p + 1\<rparr>))"

definition parser_chomp_if :: "TokenKind \<Rightarrow> Parser \<Rightarrow> Token option outcome" where
  "parser_chomp_if tokenkind p =
     and_then (deref (curr_tok p) p) (\<lambda>t p.
       if kind t = tokenkind then and_then (parser_chomp p) (\<lambda>_ p. returns (Some t) p)
       else returns None p)"

definition parser_expect_token :: "TokenKind \<Rightarrow> Parser \<Rightarrow> Token outcome" where
  "parser_expect_token tokenkind p =
     and_then (deref (curr_tok p) p) (\<lambda>t p.
       if kind t = tokenkind then and_then (parser_chomp p) (\<lambda>_ p. returns t p)
       else aborts (Panic ErrorUnexpectedToken ''Expected `%s`; got `%s`''
                      [KindArg tokenkind, KindArg (kind t)]) p)"

text \<open>The expression \<^verbatim>\<open>tok->value\<close> for a pointer \<open>tok\<close> that may be null.\<close>

definition token_value :: "Token option \<Rightarrow> Parser \<Rightarrow> string outcome" where
  "token_value tok p = (case tok of None \<Rightarrow> aborts NullDereference p | Some t \<Rightarrow> returns (value t) p)"

text \<open>
  The functions that \<^verbatim>\<open>parser.c\<close> calls and does not define are parameters of the model:
  \<^verbatim>\<open>ast_parse_expr\<close>, the three loop parsers and five operator parsers.  So are four functions
  whose text in \<^verbatim>\<open>parser.c\<close> fixes no behaviour: \<^verbatim>\<open>ast_parse_type_expr\<close> and
  \<^verbatim>\<open>ast_parse_if_expr\<close> only hand their arguments to the missing \<^verbatim>\<open>ast_parse_prefix_op_expr\<close>
  and \<^verbatim>\<open>ast_parse_if_expr_helper\<close>, \<^verbatim>\<open>ast_parse_assignment_expr\<close> calls the four-parameter
  \<^verbatim>\<open>ast_parse_binary_op_expr\<close> with one argument, and the header of \<^verbatim>\<open>ast_parse_match_expr\<close>
  does not parse.  Each may abort, not return, or return a node or null in any parser state;
  the theorems below hold for every choice.
\<close>

record externs =
  ast_parse_type_expr :: "Parser \<Rightarrow> AstNode option outcome"
  ast_parse_expr :: "Parser \<Rightarrow> AstNode option outcome"
  ast_parse_assignment_expr :: "Parser \<Rightarrow> AstNode option outcome"
  ast_parse_match_expr :: "Parser \<Rightarrow> AstNode option outcome"
  ast_parse_if_expr :: "Parser \<Rightarrow> AstNode option outcome"
  ast_parse_loop_c_statement :: "Parser \<Rightarrow> AstNode option outcome"
  ast_parse_loop_while_statement :: "Parser \<Rightarrow> AstNode option outcome"
  ast_parse_loop_in_statement :: "Parser \<Rightarrow> AstNode option outcome"
  ast_parse_comparison_op :: "Parser \<Rightarrow> AstNode option outcome"
  ast_parse_bitwise_op :: "Parser \<Rightarrow> AstNode option outcome"
  ast_parse_bitshift_op :: "Parser \<Rightarrow> AstNode option outcome"
  ast_parse_addition_op :: "Parser \<Rightarrow> AstNode option outcome"
  ast_parse_multiplication_op :: "Parser \<Rightarrow> AstNode option outcome"

text \<open>
  \<^verbatim>\<open>ast_parse_var_decl\<close>.  The local \<^verbatim>\<open>expr\<close> is not initialised when there is no \<^verbatim>\<open>=\<close>; the model
  has \<open>None\<close> for it.
\<close>

definition ast_parse_var_decl :: "externs \<Rightarrow> Parser \<Rightarrow> AstNode option outcome" where
  "ast_parse_var_decl X p =
     and_then (parser_chomp_if EXPORT p) (\<lambda>export_kwd p.
     and_then (parser_chomp_if MUTABLE p) (\<lambda>mutable_kwd p.
     and_then (parser_chomp_if CONST_TOK p) (\<lambda>const_kwd p.
       if mutable_kwd \<noteq> None \<and> const_kwd \<noteq> None
       then aborts (Panic ErrorParseError
                      ''Cannot decorate a variable as both `mutable` and `const`'' []) p
       else
         and_then (ast_parse_type_expr X p) (\<lambda>type_expr p.
         and_then (parser_expect_token IDENTIFIER p) (\<lambda>identifier p.
         and_then (parser_chomp_if EQUALS p) (\<lambda>equals p.
         and_then (if equals \<noteq> None then ast_parse_expr X p else returns None p) (\<lambda>expr p.
         and_then (parser_expect_token SEMICOLON p) (\<lambda>_ p.
           returns (Some (VarDecl (value identifier) (export_kwd \<noteq> None) (mutable_kwd \<noteq> None)
                            (const_kwd \<noteq> None) expr)) p))))))))"

definition ast_parse_break_label :: "Parser \<Rightarrow> Token option outcome" where
  "ast_parse_break_label p =
     and_then (parser_chomp_if COLON p) (\<lambda>colon p.
       if colon = None then returns None p
       else and_then (parser_expect_token IDENTIFIER p) (\<lambda>ident p. returns (Some ident) p))"

definition ast_parse_block_label :: "Parser \<Rightarrow> Token option outcome" where
  "ast_parse_block_label p =
     and_then (parser_chomp_if IDENTIFIER p) (\<lambda>ident p.
       if ident = None then returns None p
       else and_then (parser_chomp_if COLON p) (\<lambda>colon p.
              if colon = None then returns None p else returns ident p))"

text \<open>The tests \<^verbatim>\<open>node->kind == AstNodeKind...\<close> and the writes to the payload of a node.\<close>

definition is_VarDecl :: "AstNode \<Rightarrow> bool" where
  "is_VarDecl node = (case node of VarDecl _ _ _ _ _ \<Rightarrow> True | _ \<Rightarrow> False)"

definition is_Block :: "AstNode \<Rightarrow> bool" where
  "is_Block node = (case node of Block _ _ \<Rightarrow> True | _ \<Rightarrow> False)"

definition is_LoopCExpr :: "AstNode \<Rightarrow> bool" where
  "is_LoopCExpr node = (case node of LoopCExpr _ _ _ \<Rightarrow> True | _ \<Rightarrow> False)"

definition is_LoopWhileExpr :: "AstNode \<Rightarrow> bool" where
  "is_LoopWhileExpr node = (case node of LoopWhileExpr _ _ _ \<Rightarrow> True | _ \<Rightarrow> False)"

definition set_block_name :: "string \<Rightarrow> AstNode \<Rightarrow> AstNode" where
  "set_block_name v node = (case node of Block _ statements \<Rightarrow> Block (Some v) statements | _ \<Rightarrow> node)"

definition set_loop_is_inline :: "bool \<Rightarrow> AstNode \<Rightarrow> AstNode" where
  "set_loop_is_inline b node =
     (case node of
        LoopCExpr _ l parts \<Rightarrow> LoopCExpr b l parts
      | LoopWhileExpr _ l parts \<Rightarrow> LoopWhileExpr b l parts
      | LoopInExpr _ l parts \<Rightarrow> LoopInExpr b l parts
      | _ \<Rightarrow> node)"

definition set_loop_label :: "string \<Rightarrow> AstNode \<Rightarrow> AstNode" where
  "set_loop_label v node =
     (case node of
        LoopCExpr b _ parts \<Rightarrow> LoopCExpr b (Some v) parts
      | LoopWhileExpr b _ parts \<Rightarrow> LoopWhileExpr b (Some v) parts
      | LoopInExpr b _ parts \<Rightarrow> LoopInExpr b (Some v) parts
      | _ \<Rightarrow> node)"

text \<open>
  \<^verbatim>\<open>ast_parse_loop_statement\<close>.  Its third \<^verbatim>\<open>CORETEN_CHECK\<close> compares with
  \<^verbatim>\<open>AstNodeKindLoopWhileExpr\<close> as the second does, and the function has no \<^verbatim>\<open>return\<close> at its end.
\<close>

definition ast_parse_loop_statement :: "externs \<Rightarrow> Parser \<Rightarrow> AstNode option outcome" where
  "ast_parse_loop_statement X p =
     and_then (parser_chomp_if INLINE p) (\<lambda>inline_token p.
     and_then (ast_parse_loop_c_statement X p) (\<lambda>loop_c_statement p.
       case loop_c_statement of
         Some node \<Rightarrow>
           if is_LoopCExpr node then returns (Some (set_loop_is_inline (inline_token \<noteq> None) node)) p
           else aborts CheckFailure p
       | None \<Rightarrow>
     and_then (ast_parse_loop_while_statement X p) (\<lambda>loop_while_statement p.
       case loop_while_statement of
         Some node \<Rightarrow>
           if is_LoopWhileExpr node then returns (Some (set_loop_is_inline (inline_token \<noteq> None) node)) p
           else aborts CheckFailure p
       | None \<Rightarrow>
     and_then (ast_parse_loop_in_statement X p) (\<lambda>loop_in_statement p.
       case loop_in_statement of
         Some node \<Rightarrow>
           if is_LoopWhileExpr node then returns (Some (set_loop_is_inline (inline_token \<noteq> None) node)) p
           else aborts CheckFailure p
       | None \<Rightarrow>
     if inline_token \<noteq> None
     then and_then (parser_peek_token p) (\<lambda>tok p.
          and_then (deref tok p) (\<lambda>t p.
            aborts (Panic ErrorUnexpectedToken ''invalid token: `%s`'' [ValueArg (value t)]) p))
     else aborts NoReturnValue p))))"

definition ast_parse_if_prefix :: "externs \<Rightarrow> Parser \<Rightarrow> AstNode option outcome" where
  "ast_parse_if_prefix X p =
     and_then (parser_chomp_if IF p) (\<lambda>if_kwd p.
       if if_kwd = None then returns None p
       else
         and_then (parser_expect_token LPAREN p) (\<lambda>lparen p.
         and_then (ast_parse_expr X p) (\<lambda>condition p.
         and_then (parser_expect_token RPAREN p) (\<lambda>rparen p.
           aborts CloneOfEnumerator p))))"

text \<open>
  The statement parsers call each other.  They take a bound \<open>n\<close> on the depth of the calls:
  with the bound used up a call has the value \<open>None\<close>, so a call of the C function returns
  exactly when the model returns for some bound.  \<^verbatim>\<open>ast_parse_block_statements\<close> is the \<^verbatim>\<open>while\<close>
  loop of \<^verbatim>\<open>ast_parse_block\<close>.
\<close>

fun ast_parse_statement :: "externs \<Rightarrow> nat \<Rightarrow> Parser \<Rightarrow> AstNode option outcome"
  and ast_parse_if_statement :: "externs \<Rightarrow> nat \<Rightarrow> Parser \<Rightarrow> AstNode option outcome"
  and ast_parse_labeled_statements :: "externs \<Rightarrow> nat \<Rightarrow> Parser \<Rightarrow> AstNode option outcome"
  and ast_parse_block_expr_statement :: "externs \<Rightarrow> nat \<Rightarrow> Parser \<Rightarrow> AstNode option outcome"
  and ast_parse_block_expr :: "externs \<Rightarrow> nat \<Rightarrow> Parser \<Rightarrow> AstNode option outcome"
  and ast_parse_block :: "externs \<Rightarrow> nat \<Rightarrow> Parser \<Rightarrow> AstNode option outcome"
  and ast_parse_block_statements :: "externs \<Rightarrow> nat \<Rightarrow> AstNode list \<Rightarrow> Parser \<Rightarrow> AstNode list outcome"
where
  "ast_parse_statement X 0 p = None"
| "ast_parse_statement X (Suc n) p =
     and_then (ast_parse_var_decl X p) (\<lambda>var_decl p.
       case var_decl of
         Some node \<Rightarrow> if is_VarDecl node then returns var_decl p else aborts CheckFailure p
       | None \<Rightarrow>
     and_then (parser_chomp_if DEFER p) (\<lambda>defer_stmt p.
       if defer_stmt \<noteq> None
       then and_then (ast_parse_block_expr_statement X n p) (\<lambda>statement p.
              returns (Some (Defer statement)) p)
       else
     and_then (ast_parse_if_statement X n p) (\<lambda>if_statement p.
       if if_statement \<noteq> None then returns if_statement p
       else
     and_then (ast_parse_labeled_statements X n p) (\<lambda>labeled_statement p.
       if labeled_statement \<noteq> None then returns labeled_statement p
       else
     and_then (ast_parse_match_expr X p) (\<lambda>match_expr p.
       if match_expr \<noteq> None then returns match_expr p
       else
     and_then (ast_parse_assignment_expr X p) (\<lambda>assignment_expr p.
       if assignment_expr \<noteq> None then returns assignment_expr p
       else returns None p))))))"
| "ast_parse_if_statement X 0 p = None"
| "ast_parse_if_statement X (Suc n) p =
     and_then (ast_parse_if_prefix X p) (\<lambda>out p.
       case out of
         None \<Rightarrow> returns None p
       | Some out_node \<Rightarrow>
     and_then (ast_parse_block_expr X n p) (\<lambda>body p.
     and_then (if body = None then ast_parse_assignment_expr X p else returns body p) (\<lambda>body p.
     and_then (if body = None
               then and_then (parser_chomp p) (\<lambda>token p.
                    and_then (deref token p) (\<lambda>t p.
                      aborts (Panic ErrorParseError ''expected `if` body; found `%s`''
                                [KindArg (kind t)]) p))
               else returns () p) (\<lambda>_ p.
     and_then (parser_chomp_if ELSE p) (\<lambda>else_kwd p.
     and_then (if else_kwd \<noteq> None then ast_parse_statement X n p else returns None p) (\<lambda>else_body p.
       case out_node of
         IfExpr condition _ _ _ \<Rightarrow> returns (Some (IfExpr condition body (else_body \<noteq> None) else_body)) p
       | _ \<Rightarrow> returns out p))))))"
| "ast_parse_labeled_statements X 0 p = None"
| "ast_parse_labeled_statements X (Suc n) p =
     and_then (ast_parse_block_label p) (\<lambda>label p.
     and_then (ast_parse_block X n p) (\<lambda>block p.
       case block of
         Some node \<Rightarrow>
           if is_Block node
           then and_then (token_value label p) (\<lambda>v p. returns (Some (set_block_name v node)) p)
           else aborts CheckFailure p
       | None \<Rightarrow>
     and_then (ast_parse_loop_statement X p) (\<lambda>loop p.
       case loop of
         Some node \<Rightarrow> and_then (token_value label p) (\<lambda>v p. returns (Some (set_loop_label v node)) p)
       | None \<Rightarrow>
     if label \<noteq> None
     then and_then (parser_peek_token p) (\<lambda>tok p.
          and_then (deref tok p) (\<lambda>t p.
            aborts (Panic ErrorUnexpectedToken ''invalid token: `%s`'' [ValueArg (value t)]) p))
     else returns None p)))"
| "ast_parse_block_expr_statement X 0 p = None"
| "ast_parse_block_expr_statement X (Suc n) p =
     and_then (ast_parse_block_expr X n p) (\<lambda>block p.
       if block \<noteq> None then returns block p
       else
     and_then (ast_parse_assignment_expr X p) (\<lambda>assignment_expr p.
       if assignment_expr \<noteq> None
       then and_then (parser_expect_token SEMICOLON p) (\<lambda>semi p. returns assignment_expr p)
       else returns None p))"
| "ast_parse_block_expr X 0 p = None"
| "ast_parse_block_expr X (Suc n) p =
     and_then (ast_parse_block_label p) (\<lambda>block_label p.
       case block_label of
         Some label \<Rightarrow>
           and_then (ast_parse_block X n p) (\<lambda>out p.
             case out of
               None \<Rightarrow> aborts NullDereference p
             | Some node \<Rightarrow>
                 if is_Block node then returns (Some (set_block_name (value label) node)) p
                 else aborts CheckFailure p)
       | None \<Rightarrow> ast_parse_block X n p)"
| "ast_parse_block X 0 p = None"
| "ast_parse_block X (Suc n) p =
     and_then (parser_chomp_if LBRACE p) (\<lambda>lbrace p.
       if lbrace = None then returns None p
       else
     and_then (ast_parse_block_statements X n [] p) (\<lambda>statements p.
     and_then (parser_expect_token RBRACE p) (\<lambda>rbrace p.
       returns (Some (Block None statements)) p)))"
| "ast_parse_block_statements X 0 statements p = None"
| "ast_parse_block_statements X (Suc n) statements p =
     and_then (ast_parse_statement X n p) (\<lambda>statement p.
       case statement of
         None \<Rightarrow> returns statements p
       | Some node \<Rightarrow> ast_parse_block_statements X n (statements @ [node]) p)"


text \<open>
  \<^verbatim>\<open>ast_parse_primary_expr\<close> (its first call passes the undeclared name \<^verbatim>\<open>pc\<close>, taken to be
  \<^verbatim>\<open>parser\<close>).  The branch for \<^verbatim>\<open>continue\<close> makes its node and has no \<^verbatim>\<open>return\<close>: the node is
  dropped and the function goes on with the test for \<^verbatim>\<open>return\<close>.
\<close>

definition ast_parse_primary_expr :: "externs \<Rightarrow> nat \<Rightarrow> Parser \<Rightarrow> AstNode option outcome" where
  "ast_parse_primary_expr X n p =
     and_then (ast_parse_if_expr X p) (\<lambda>if_expr p.
       if if_expr \<noteq> None then returns if_expr p
       else
     and_then (parser_chomp_if BREAK p) (\<lambda>break_token p.
       if break_token \<noteq> None
       then and_then (ast_parse_break_label p) (\<lambda>label p.
            and_then (ast_parse_expr X p) (\<lambda>expr p.
            and_then (token_value label p) (\<lambda>v p.
              returns (Some (Break (Some v) expr)) p)))
       else
     and_then (parser_chomp_if CONTINUE p) (\<lambda>continue_token p.
     and_then (if continue_token \<noteq> None
               then and_then (ast_parse_break_label p) (\<lambda>label p.
                    and_then (if label = None
                              then and_then (token_value label p) (\<lambda>v p. returns (Some v) p)
                              else returns None p) (\<lambda>name p.
                      returns (Some (Continue name)) p))
               else returns None p) (\<lambda>out p.
     and_then (parser_chomp_if RETURN p) (\<lambda>return_token p.
       if return_token \<noteq> None
       then and_then (ast_parse_expr X p) (\<lambda>expr p. returns (Some (Return expr)) p)
       else
     and_then (ast_parse_block X n p) (\<lambda>block p.
       if block \<noteq> None then returns block p
       else returns None p))))))"

definition ast_parse_boolean_and_op :: "Parser \<Rightarrow> AstNode option outcome" where
  "ast_parse_boolean_and_op p =
     and_then (parser_chomp_if AND p) (\<lambda>op_token p.
       if op_token = None then returns None p
       else returns (Some (BinaryOpExpr BinaryOpKindBoolAnd None None)) p)"

definition ast_parse_boolean_or_op :: "Parser \<Rightarrow> AstNode option outcome" where
  "ast_parse_boolean_or_op p =
     and_then (parser_chomp_if OR p) (\<lambda>op_token p.
       if op_token = None then returns None p
       else returns (Some (BinaryOpExpr BinaryOpKindBoolOr None None)) p)"

text \<open>
  \<^verbatim>\<open>ast_parse_binary_op_expr\<close> and the parsers of the precedence tiers that are built from it.
  \<^verbatim>\<open>ast_parse_binary_op_expr_loop\<close> is the \<^verbatim>\<open>do ... while\<close> loop.
\<close>

datatype BinaryOpChain = BinaryOpChainOnce | BinaryOpChainInfinity

fun ast_parse_binary_op_expr_loop ::
  "nat \<Rightarrow> BinaryOpChain \<Rightarrow> (Parser \<Rightarrow> AstNode option outcome) \<Rightarrow> (Parser \<Rightarrow> AstNode option outcome)
     \<Rightarrow> AstNode option \<Rightarrow> Parser \<Rightarrow> AstNode option outcome" where
  "ast_parse_binary_op_expr_loop 0 chain op_parser child_parser out p = None"
| "ast_parse_binary_op_expr_loop (Suc n) chain op_parser child_parser out p =
     and_then (op_parser p) (\<lambda>op p.
       case op of
         None \<Rightarrow> returns out p
       | Some op_node \<Rightarrow>
           and_then (child_parser p) (\<lambda>right p.
             case op_node of
               BinaryOpExpr k _ _ \<Rightarrow>
                 if chain = BinaryOpChainInfinity
                 then ast_parse_binary_op_expr_loop n chain op_parser child_parser
                        (Some (BinaryOpExpr k out right)) p
                 else returns (Some (BinaryOpExpr k out right)) p
             | _ \<Rightarrow> aborts UnreachableReached p))"

definition ast_parse_binary_op_expr ::
  "nat \<Rightarrow> BinaryOpChain \<Rightarrow> (Parser \<Rightarrow> AstNode option outcome) \<Rightarrow> (Parser \<Rightarrow> AstNode option outcome)
     \<Rightarrow> Parser \<Rightarrow> AstNode option outcome" where
  "ast_parse_binary_op_expr n chain op_parser child_parser p =
     and_then (child_parser p) (\<lambda>out p.
       if out = None then returns None p
       else ast_parse_binary_op_expr_loop n chain op_parser child_parser out p)"

fun ast_parse_bool_and_expr :: "externs \<Rightarrow> nat \<Rightarrow> Parser \<Rightarrow> AstNode option outcome"
  and ast_parse_bool_or_expr :: "externs \<Rightarrow> nat \<Rightarrow> Parser \<Rightarrow> AstNode option outcome"
  and ast_parse_comparison_expr :: "externs \<Rightarrow> nat \<Rightarrow> Parser \<Rightarrow> AstNode option outcome"
  and ast_parse_bitwise_expr :: "externs \<Rightarrow> nat \<Rightarrow> Parser \<Rightarrow> AstNode option outcome"
  and ast_parse_bitshift_expr :: "externs \<Rightarrow> nat \<Rightarrow> Parser \<Rightarrow> AstNode option outcome"
  and ast_parse_addition_expr :: "externs \<Rightarrow> nat \<Rightarrow> Parser \<Rightarrow> AstNode option outcome"
  and ast_parse_multiplication_expr :: "externs \<Rightarrow> nat \<Rightarrow> Parser \<Rightarrow> AstNode option outcome"
where
  "ast_parse_bool_and_expr X 0 = (\<lambda>p. None)"
| "ast_parse_bool_and_expr X (Suc n) =
     ast_parse_binary_op_expr n BinaryOpChainInfinity ast_parse_boolean_and_op
       (ast_parse_bool_or_expr X n)"
| "ast_parse_bool_or_expr X 0 = (\<lambda>p. None)"
| "ast_parse_bool_or_expr X (Suc n) =
     ast_parse_binary_op_expr n BinaryOpChainInfinity ast_parse_boolean_or_op
       (ast_parse_comparison_expr X n)"
| "ast_parse_comparison_expr X 0 = (\<lambda>p. None)"
| "ast_parse_comparison_expr X (Suc n) =
     ast_parse_binary_op_expr n BinaryOpChainOnce (ast_parse_comparison_op X)
       (ast_parse_bitwise_expr X n)"
| "ast_parse_bitwise_expr X 0 = (\<lambda>p. None)"
| "ast_parse_bitwise_expr X (Suc n) =
     ast_parse_binary_op_expr n BinaryOpChainInfinity (ast_parse_bitwise_op X)
       (ast_parse_bitshift_expr X n)"
| "ast_parse_bitshift_expr X 0 = (\<lambda>p. None)"
| "ast_parse_bitshift_expr X (Suc n) =
     ast_parse_binary_op_expr n BinaryOpChainInfinity (ast_parse_bitshift_op X)
       (ast_parse_addition_expr X n)"
| "ast_parse_addition_expr X 0 = (\<lambda>p. None)"
| "ast_parse_addition_expr X (Suc n) =
     ast_parse_binary_op_expr n BinaryOpChainInfinity (ast_parse_addition_op X)
       (ast_parse_multiplication_expr X n)"
| "ast_parse_multiplication_expr X 0 = (\<lambda>p. None)"
| "ast_parse_multiplication_expr X (Suc n) =
     ast_parse_binary_op_expr n BinaryOpChainInfinity (ast_parse_multiplication_op X)
       (ast_parse_bitwise_expr X n)"

text \<open>
  An instance of the missing parsers for the concrete runs below: each returns null and consumes
  no token.  \<open>token\<close> makes a token of a kind and a value at a location that plays no role.
\<close>

definition externs_null :: externs where
  "externs_null =
     \<lparr> ast_parse_type_expr = returns None, ast_parse_expr = returns None,
       ast_parse_assignment_expr = returns None, ast_parse_match_expr = returns None,
       ast_parse_if_expr = returns None, ast_parse_loop_c_statement = returns None,
       ast_parse_loop_while_statement = returns None, ast_parse_loop_in_statement = returns None,
       ast_parse_comparison_op = returns None, ast_parse_bitwise_op = returns None,
       ast_parse_bitshift_op = returns None, ast_parse_addition_op = returns None,
       ast_parse_multiplication_op = returns None \<rparr>"

definition token :: "TokenKind \<Rightarrow> string \<Rightarrow> Token" where
  "token k v = \<lparr>kind = k, tok_offset = 0, tok_colno = 1, tok_lineno = 1, tok_fname = [], value = v\<rparr>"

definition tokens_1_plus_2_times_3 :: "Token list" where
  "tokens_1_plus_2_times_3 =
     [token INTEGER ''1'', token PLUS ''+'', token INTEGER ''2'', token MULT ''*'',
      token INTEGER ''3'', token TOK_EOF []]"

definition tokens_mutable_const :: "Token list" where
  "tokens_mutable_const =
     [token MUTABLE ''mutable'', token CONST_TOK ''const'', token IDENTIFIER ''Int32'',
      token IDENTIFIER ''x'', token SEMICOLON '';'', token TOK_EOF []]"

definition tokens_empty_block :: "Token list" where
  "tokens_empty_block = [token LBRACE ''{'', token RBRACE ''}'', token TOK_EOF []]"

definition tokens_continue :: "Token list" where
  "tokens_continue = [token CONTINUE ''continue'', token SEMICOLON '';'', token TOK_EOF []]"

section \<open>Properties of the parser\<close>

lemma and_then_None [simp]: "and_then None f = None"
  by (simp add: and_then_def)

lemma and_then_returns [simp]: "and_then (returns x p) f = f x p"
  by (simp add: and_then_def returns_def)

lemma and_then_aborts [simp]: "and_then (aborts a p) f = aborts a p"
  by (simp add: and_then_def aborts_def)

lemma returns_neq [simp]:
  "returns x p \<noteq> None" "aborts a p \<noteq> None" "None \<noteq> returns x p" "None \<noteq> aborts a p"
  "returns x p \<noteq> aborts a q" "aborts a q \<noteq> returns x p"
  by (simp_all add: returns_def aborts_def)

lemma returns_eq [simp]: "returns x p = returns y q \<longleftrightarrow> x = y \<and> p = q"
  by (simp add: returns_def)

lemma aborts_eq [simp]: "aborts a p = aborts b q \<longleftrightarrow> a = b \<and> p = q"
  by (simp add: aborts_def)

lemma and_then_returnsD:
  assumes "and_then r f = returns x p"
  obtains y q where "r = returns y q" "f y q = returns x p"
  using assms by (auto simp: and_then_def returns_def split: option.splits sum.splits)

lemma parser_chomp_if_match:
  "curr_tok p < length (toklist p) \<Longrightarrow> kind (toklist p ! curr_tok p) = k \<Longrightarrow>
     parser_chomp_if k p = returns (Some (toklist p ! curr_tok p)) (p\<lparr>curr_tok := curr_tok p + 1\<rparr>)"
  by (simp add: parser_chomp_if_def deref_def parser_chomp_def parser_peek_token_def)

lemma parser_chomp_if_mismatch:
  "curr_tok p < length (toklist p) \<Longrightarrow> kind (toklist p ! curr_tok p) \<noteq> k \<Longrightarrow>
     parser_chomp_if k p = returns None p"
  by (simp add: parser_chomp_if_def deref_def)

lemma parser_chomp_if_cases:
  obtains (out_of_bounds) "parser_chomp_if k p = aborts TokenOutOfBounds p"
  | (match) t where "parser_chomp_if k p = returns (Some t) (p\<lparr>curr_tok := curr_tok p + 1\<rparr>)"
      "curr_tok p < length (toklist p)" "toklist p ! curr_tok p = t" "kind t = k"
  | (mismatch) "parser_chomp_if k p = returns None p"
      "curr_tok p < length (toklist p)" "kind (toklist p ! curr_tok p) \<noteq> k"
  by (cases "curr_tok p < length (toklist p)"; cases "kind (toklist p ! curr_tok p) = k")
     (auto simp: parser_chomp_if_def deref_def parser_chomp_def parser_peek_token_def)

subsection \<open>Conflicting qualifiers\<close>

text \<open>
  C8 (as amended).  For every token stream whose current tokens are \<^verbatim>\<open>mutable\<close> and \<^verbatim>\<open>const\<close>, with
  or without an \<^verbatim>\<open>export\<close> before them (\<open>e\<close> is 1 or 0), \<^verbatim>\<open>ast_parse_var_decl\<close> aborts with
  \<^verbatim>\<open>panic(ErrorParseError, "Cannot decorate a variable as both `mutable` and `const`")\<close>, and it
  does so right behind the \<^verbatim>\<open>const\<close> token: the cursor of the aborted parser is the token after
  it.  This holds whatever the missing parsers do, since none of them is reached.  The stream
  \<^verbatim>\<open>MUTABLE CONST IDENTIFIER IDENTIFIER SEMICOLON EOF\<close> of the witness has the keyword tokens of the
  text \<^verbatim>\<open>mutable const Int32 x;\<close>.
\<close>

theorem ast_parse_var_decl_mutable_const:
  assumes "e = 0 \<or> e = 1 \<and> kind (toklist p ! curr_tok p) = EXPORT"
    and "curr_tok p + e + 1 < length (toklist p)"
    and "kind (toklist p ! (curr_tok p + e)) = MUTABLE"
    and "kind (toklist p ! (curr_tok p + e + 1)) = CONST_TOK"
  shows "ast_parse_var_decl X p =
           aborts (Panic ErrorParseError
                     ''Cannot decorate a variable as both `mutable` and `const`'' [])
             (p\<lparr>curr_tok := curr_tok p + e + 2\<rparr>)"
  using assms(1)
proof
  assume e: "e = 0"
  have "kind (toklist p ! curr_tok p) \<noteq> EXPORT"
    using assms(3) e by (simp add: TokenKind_defs)
  then show ?thesis
    using assms(2,3,4) e
    by (simp add: ast_parse_var_decl_def parser_chomp_if_match parser_chomp_if_mismatch)
next
  assume e: "e = 1 \<and> kind (toklist p ! curr_tok p) = EXPORT"
  then show ?thesis
    using assms(2,3,4)
    by (simp add: ast_parse_var_decl_def parser_chomp_if_match parser_chomp_if_mismatch)
qed

theorem ast_parse_var_decl_mutable_const_witness:
  "curr_tok (parser_init tokens_mutable_const) + 0 + 1 < length (toklist (parser_init tokens_mutable_const))
   \<and> kind (toklist (parser_init tokens_mutable_const) ! (curr_tok (parser_init tokens_mutable_const) + 0))
       = MUTABLE
   \<and> kind (toklist (parser_init tokens_mutable_const) ! (curr_tok (parser_init tokens_mutable_const) + 0 + 1))
       = CONST_TOK
   \<and> ast_parse_var_decl externs_null (parser_init tokens_mutable_const) =
       aborts (Panic ErrorParseError ''Cannot decorate a variable as both `mutable` and `const`'' [])
         ((parser_init tokens_mutable_const)
            \<lparr>curr_tok := curr_tok (parser_init tokens_mutable_const) + 0 + 2\<rparr>)"
proof -
  let ?p = "parser_init tokens_mutable_const"
  have h1: "(0::nat) = 0 \<or> (0::nat) = 1 \<and> kind (toklist ?p ! curr_tok ?p) = EXPORT"
    by simp
  have h2: "curr_tok ?p + 0 + 1 < length (toklist ?p)"
    by (simp add: parser_init_def tokens_mutable_const_def)
  have h3: "kind (toklist ?p ! (curr_tok ?p + 0)) = MUTABLE"
    by (simp add: parser_init_def tokens_mutable_const_def token_def)
  have h4: "kind (toklist ?p ! (curr_tok ?p + 0 + 1)) = CONST_TOK"
    by (simp add: parser_init_def tokens_mutable_const_def token_def)
  from ast_parse_var_decl_mutable_const [OF h1 h2 h3 h4, of externs_null] h2 h3 h4 show ?thesis
    by blast
qed

text \<open>
  The claim as stated fails at its first half: the lexer of \<^verbatim>\<open>lexer.c\<close> makes \<open>IDENTIFIER\<close>
  tokens of \<^verbatim>\<open>mutable\<close> and \<^verbatim>\<open>const\<close> (and takes the semicolon for the end of \<^verbatim>\<open>x\<close>), so on the
  tokens it makes of \<^verbatim>\<open>mutable const Int32 x;\<close> the test for both qualifiers does not fire.  With
  missing parsers that match nothing, \<^verbatim>\<open>ast_parse_var_decl\<close> then takes \<^verbatim>\<open>mutable\<close> for the name
  and aborts at \<^verbatim>\<open>const\<close> with \<^verbatim>\<open>ErrorUnexpectedToken\<close>, a semicolon expected.
\<close>

theorem lex_then_parse_mutable_const_counterexample:
  "lex lexer_h ''mutable const Int32 x;'' =
     Some (Inr ([\<lparr>kind = IDENTIFIER, tok_offset = 8, tok_colno = 9, tok_lineno = 1,
                    tok_fname = [], value = ''mutable''\<rparr>,
                 \<lparr>kind = IDENTIFIER, tok_offset = 14, tok_colno = 15, tok_lineno = 1,
                    tok_fname = [], value = ''const''\<rparr>,
                 \<lparr>kind = IDENTIFIER, tok_offset = 20, tok_colno = 21, tok_lineno = 1,
                    tok_fname = [], value = ''Int32''\<rparr>,
                 \<lparr>kind = IDENTIFIER, tok_offset = 22, tok_colno = 23, tok_lineno = 1,
                    tok_fname = [], value = ''x''\<rparr>,
                 \<lparr>kind = TOK_EOF, tok_offset = 22, tok_colno = 23, tok_lineno = 1,
                    tok_fname = [], value = []\<rparr>],
                []))
   \<and> ast_parse_var_decl externs_null
         (parser_init
            [\<lparr>kind = IDENTIFIER, tok_offset = 8, tok_colno = 9, tok_lineno = 1,
                tok_fname = [], value = ''mutable''\<rparr>,
             \<lparr>kind = IDENTIFIER, tok_offset = 14, tok_colno = 15, tok_lineno = 1,
                tok_fname = [], value = ''const''\<rparr>,
             \<lparr>kind = IDENTIFIER, tok_offset = 20, tok_colno = 21, tok_lineno = 1,
                tok_fname = [], value = ''Int32''\<rparr>,
             \<lparr>kind = IDENTIFIER, tok_offset = 22, tok_colno = 23, tok_lineno = 1,
                tok_fname = [], value = ''x''\<rparr>,
             \<lparr>kind = TOK_EOF, tok_offset = 22, tok_colno = 23, tok_lineno = 1,
                tok_fname = [], value = []\<rparr>]) =
       Some (Inl (Panic ErrorUnexpectedToken ''Expected `%s`; got `%s`''
                    [KindArg SEMICOLON, KindArg IDENTIFIER],
                  \<lparr>toklist =
                     [\<lparr>kind = IDENTIFIER, tok_offset = 8, tok_colno = 9, tok_lineno = 1,
                         tok_fname = [], value = ''mutable''\<rparr>,
                      \<lparr>kind = IDENTIFIER, tok_offset = 14, tok_colno = 15, tok_lineno = 1,
                         tok_fname = [], value = ''const''\<rparr>,
                      \<lparr>kind = IDENTIFIER, tok_offset = 20, tok_colno = 21, tok_lineno = 1,
                         tok_fname = [], value = ''Int32''\<rparr>,
                      \<lparr>kind = IDENTIFIER, tok_offset = 22, tok_colno = 23, tok_lineno = 1,
                         tok_fname = [], value = ''x''\<rparr>,
                      \<lparr>kind = TOK_EOF, tok_offset = 22, tok_colno = 23, tok_lineno = 1,
                         tok_fname = [], value = []\<rparr>],
                     curr_tok = 1, num_tokens = 5, num_lines = 0\<rparr>))"
  by code_simp

subsection \<open>Blocks\<close>

text \<open>
  \<^verbatim>\<open>ast_parse_var_decl\<close> has one \<^verbatim>\<open>return\<close>, of the node it has made: it never returns null.
  \<^verbatim>\<open>ast_parse_statement\<close> tries it first and returns its node, so it never returns null
  either, and the \<^verbatim>\<open>while\<close> loop of \<^verbatim>\<open>ast_parse_block\<close>, which ends at a null statement, can
  only be left by an abort.
\<close>

lemma ast_parse_var_decl_not_null: "ast_parse_var_decl X p \<noteq> returns None p'"
proof
  assume "ast_parse_var_decl X p = returns None p'"
  then show False
    unfolding ast_parse_var_decl_def
    by (auto elim!: and_then_returnsD split: if_splits)
qed

lemma ast_parse_statement_not_null: "ast_parse_statement X n p \<noteq> returns None p'"
proof (cases n)
  case 0
  then show ?thesis by simp
next
  case (Suc m)
  show ?thesis
  proof
    assume "ast_parse_statement X n p = returns None p'"
    then obtain v q where v: "ast_parse_var_decl X p = returns v q"
      and r: "(case v of Some node \<Rightarrow> if is_VarDecl node then returns v q else aborts CheckFailure q
               | None \<Rightarrow> returns None p') = returns None p' \<or> v = None"
      unfolding Suc ast_parse_statement.simps
      by (elim and_then_returnsD) (auto split: option.splits if_splits)
    from v ast_parse_var_decl_not_null [of X p q] obtain node where "v = Some node"
      by (cases v) auto
    with r show False
      by (auto split: if_splits)
  qed
qed

lemma ast_parse_block_statements_never_returns:
  "ast_parse_block_statements X n statements p \<noteq> returns r p'"
proof (induction n arbitrary: statements p)
  case 0
  show ?case by simp
next
  case (Suc n)
  show ?case
  proof
    assume "ast_parse_block_statements X (Suc n) statements p = returns r p'"
    then obtain st q where st: "ast_parse_statement X n p = returns st q"
      and c: "(case st of None \<Rightarrow> returns statements q
               | Some node \<Rightarrow> ast_parse_block_statements X n (statements @ [node]) q) = returns r p'"
      unfolding ast_parse_block_statements.simps by (elim and_then_returnsD)
    from st ast_parse_statement_not_null [of X n p q] obtain node where "st = Some node"
      by (cases st) auto
    with c Suc.IH show False
      by simp
  qed
qed

lemma ast_parse_block_returns_null_only:
  assumes "ast_parse_block X n p = returns r p'"
  shows "r = None \<and> p' = p \<and> curr_tok p < length (toklist p) \<and> kind (toklist p ! curr_tok p) \<noteq> LBRACE"
proof (cases n)
  case 0
  with assms show ?thesis by simp
next
  case (Suc m)
  show ?thesis
  proof (cases LBRACE p rule: parser_chomp_if_cases)
    case out_of_bounds
    with assms Suc show ?thesis by simp
  next
    case (match t)
    with assms Suc have "and_then (ast_parse_block_statements X m [] (p\<lparr>curr_tok := curr_tok p + 1\<rparr>))
        (\<lambda>statements p. and_then (parser_expect_token RBRACE p)
           (\<lambda>rbrace p. returns (Some (Block None statements)) p)) = returns r p'"
      by simp
    then show ?thesis
      using ast_parse_block_statements_never_returns by (elim and_then_returnsD) blast
  next
    case mismatch
    with assms Suc show ?thesis by simp
  qed
qed

lemma ast_parse_block_not_a_node: "ast_parse_block X n p \<noteq> returns (Some node) p'"
  using ast_parse_block_returns_null_only [of X n p "Some node" p'] by auto

text \<open>
  C9 (as amended).  For every token stream whose current token is \<^verbatim>\<open>{\<close>, so that no label
  precedes the block, and whatever the missing parsers do: \<^verbatim>\<open>ast_parse_block\<close> does not return
  (it aborts or runs for ever), and the outcome of \<^verbatim>\<open>ast_parse_labeled_statements\<close> is that
  outcome of \<^verbatim>\<open>ast_parse_block\<close>.  The assignment of \<^verbatim>\<open>label->value\<close> to the name of the block is
  never reached, with a null label or another: no block is parsed at all.
\<close>

theorem ast_parse_block_never_returns_a_block:
  assumes "curr_tok p < length (toklist p)" and "kind (toklist p ! curr_tok p) = LBRACE"
  shows "(\<forall>r p'. ast_parse_block X n p \<noteq> returns r p')
         \<and> ast_parse_labeled_statements X (Suc n) p = ast_parse_block X n p"
proof -
  have never: "ast_parse_block X n p \<noteq> returns r p'" for r p'
    using ast_parse_block_returns_null_only [of X n p r p'] assms by auto
  have label: "ast_parse_block_label p = returns None p"
    using assms by (simp add: ast_parse_block_label_def parser_chomp_if_mismatch TokenKind_defs)
  have "ast_parse_labeled_statements X (Suc n) p = ast_parse_block X n p"
  proof (cases "ast_parse_block X n p")
    case None
    then show ?thesis by (simp add: label)
  next
    case (Some res)
    then show ?thesis
    proof (cases res)
      case (Inl e)
      with Some have "ast_parse_block X n p = aborts (fst e) (snd e)"
        by (simp add: aborts_def)
      then show ?thesis
        by (simp add: label)
    next
      case (Inr rp)
      with Some never [of "fst rp" "snd rp"] show ?thesis
        by (simp add: returns_def)
    qed
  qed
  with never show ?thesis by blast
qed


theorem ast_parse_block_never_returns_a_block_witness:
  "curr_tok (parser_init tokens_empty_block) < length (toklist (parser_init tokens_empty_block))
   \<and> kind (toklist (parser_init tokens_empty_block) ! curr_tok (parser_init tokens_empty_block)) = LBRACE
   \<and> ast_parse_labeled_statements externs_null (Suc 3) (parser_init tokens_empty_block)
       = ast_parse_block externs_null 3 (parser_init tokens_empty_block)"
proof -
  let ?p = "parser_init tokens_empty_block"
  have h1: "curr_tok ?p < length (toklist ?p)"
    by (simp add: parser_init_def tokens_empty_block_def)
  have h2: "kind (toklist ?p ! curr_tok ?p) = LBRACE"
    by (simp add: parser_init_def tokens_empty_block_def token_def)
  from ast_parse_block_never_returns_a_block [OF h1 h2, of externs_null 3] h1 h2 show ?thesis
    by blast
qed

text \<open>
  The claim as stated fails: for the unlabeled block \<^verbatim>\<open>{ }\<close>, with missing parsers that match
  nothing, \<^verbatim>\<open>ast_parse_labeled_statements\<close> aborts inside \<^verbatim>\<open>ast_parse_block\<close>, where
  \<^verbatim>\<open>ast_parse_var_decl\<close> expects an identifier and finds \<^verbatim>\<open>}\<close>; it does not come to the read of
  \<^verbatim>\<open>label->value\<close>.
\<close>

theorem ast_parse_labeled_statements_counterexample:
  "ast_parse_labeled_statements externs_null 4 (parser_init tokens_empty_block) =
     Some (Inl (Panic ErrorUnexpectedToken ''Expected `%s`; got `%s`''
                  [KindArg IDENTIFIER, KindArg RBRACE],
                \<lparr>toklist = tokens_empty_block, curr_tok = 1, num_tokens = 3, num_lines = 0\<rparr>))"
  by code_simp

subsection \<open>A \<^verbatim>\<open>continue\<close> without a label\<close>

text \<open>
  C10.  Let the current token be \<^verbatim>\<open>continue\<close>, and let the missing \<^verbatim>\<open>ast_parse_if_expr\<close> return
  null there without consuming a token (there is no \<^verbatim>\<open>if\<close>).  If the next token is not a
  colon, \<^verbatim>\<open>ast_parse_break_label\<close> returns null, the name is computed as
  \<^verbatim>\<open>label == null ? label->value : null\<close>, and \<^verbatim>\<open>ast_parse_primary_expr\<close> ends in the read through
  the null pointer, the \<^verbatim>\<open>continue\<close> token consumed.  And with or without a label, the function
  never returns the \<open>Continue\<close> node.
\<close>

theorem ast_parse_primary_expr_continue:
  assumes "curr_tok p < length (toklist p)" and "kind (toklist p ! curr_tok p) = CONTINUE"
    and "ast_parse_if_expr X p = returns None p"
  shows "(curr_tok p + 1 < length (toklist p) \<and> kind (toklist p ! (curr_tok p + 1)) \<noteq> COLON \<longrightarrow>
            ast_parse_primary_expr X n p = aborts NullDereference (p\<lparr>curr_tok := curr_tok p + 1\<rparr>))
         \<and> (\<forall>name p'. ast_parse_primary_expr X n p \<noteq> returns (Some (Continue name)) p')"
proof -
  let ?p1 = "p\<lparr>curr_tok := curr_tok p + 1\<rparr>"
  have b: "parser_chomp_if BREAK p = returns None p"
    using assms(1,2) by (simp add: parser_chomp_if_mismatch TokenKind_defs)
  have c: "parser_chomp_if CONTINUE p = returns (Some (toklist p ! curr_tok p)) ?p1"
    using assms(1,2) by (simp add: parser_chomp_if_match)
  have null: "ast_parse_primary_expr X n p = aborts NullDereference ?p1"
    if "curr_tok p + 1 < length (toklist p)" "kind (toklist p ! (curr_tok p + 1)) \<noteq> COLON"
  proof -
    have "ast_parse_break_label ?p1 = returns None ?p1"
      using that by (simp add: ast_parse_break_label_def parser_chomp_if_mismatch)
    then show ?thesis
      by (simp add: ast_parse_primary_expr_def assms(3) b c token_value_def)
  qed
  have never: "ast_parse_primary_expr X n p \<noteq> returns (Some (Continue name)) p'" for name p'
  proof
    assume "ast_parse_primary_expr X n p = returns (Some (Continue name)) p'"
    then show False
      unfolding ast_parse_primary_expr_def assms(3) and_then_returns b c
      by (auto elim!: and_then_returnsD simp: ast_parse_block_not_a_node split: if_splits)
  qed
  from null never show ?thesis
    by blast
qed

theorem ast_parse_primary_expr_continue_witness:
  "curr_tok (parser_init tokens_continue) < length (toklist (parser_init tokens_continue))
   \<and> kind (toklist (parser_init tokens_continue) ! curr_tok (parser_init tokens_continue)) = CONTINUE
   \<and> ast_parse_if_expr externs_null (parser_init tokens_continue)
       = returns None (parser_init tokens_continue)
   \<and> curr_tok (parser_init tokens_continue) + 1 < length (toklist (parser_init tokens_continue))
   \<and> kind (toklist (parser_init tokens_continue) ! (curr_tok (parser_init tokens_continue) + 1)) \<noteq> COLON
   \<and> ast_parse_primary_expr externs_null 0 (parser_init tokens_continue) =
       aborts NullDereference
         ((parser_init tokens_continue)\<lparr>curr_tok := curr_tok (parser_init tokens_continue) + 1\<rparr>)"
proof -
  let ?p = "parser_init tokens_continue"
  have h1: "curr_tok ?p < length (toklist ?p)"
    by (simp add: parser_init_def tokens_continue_def)
  have h2: "kind (toklist ?p ! curr_tok ?p) = CONTINUE"
    by (simp add: parser_init_def tokens_continue_def token_def)
  have h3: "ast_parse_if_expr externs_null ?p = returns None ?p"
    by (simp add: externs_null_def)
  have h4: "curr_tok ?p + 1 < length (toklist ?p)"
    by (simp add: parser_init_def tokens_continue_def)
  have h5: "kind (toklist ?p ! (curr_tok ?p + 1)) \<noteq> COLON"
    by (simp add: parser_init_def tokens_continue_def token_def TokenKind_defs)
  from ast_parse_primary_expr_continue [OF h1 h2 h3, of 0] h1 h2 h3 h4 h5 show ?thesis
    by blast
qed

subsection \<open>The precedence tiers\<close>

lemma ast_parse_binary_op_expr_None:
  "child_parser p = None \<Longrightarrow> ast_parse_binary_op_expr n chain op_parser child_parser p = None"
  by (simp add: ast_parse_binary_op_expr_def)

lemma tier_cycle_never_returns:
  "ast_parse_bitwise_expr X n p = None \<and> ast_parse_bitshift_expr X n p = None
     \<and> ast_parse_addition_expr X n p = None \<and> ast_parse_multiplication_expr X n p = None"
proof (induction n arbitrary: p)
  case 0
  show ?case by simp
next
  case (Suc n)
  then show ?case
    by (simp add: ast_parse_binary_op_expr_None)
qed


text \<open>
  C4.  The claim asks for the parse of \<^verbatim>\<open>1 + 2 * 3\<close> to end with the product below the sum.
  \<^verbatim>\<open>ast_parse_multiplication_expr\<close> has \<^verbatim>\<open>ast_parse_bitwise_expr\<close> for the parser of its operands,
  the tier that leads back to it through \<^verbatim>\<open>ast_parse_bitshift_expr\<close> and
  \<^verbatim>\<open>ast_parse_addition_expr\<close>, and \<^verbatim>\<open>ast_parse_binary_op_expr\<close> calls the parser of the operands
  before it looks at a token.  So the four tiers call each other for ever: for every bound
  \<open>n\<close> and whatever the missing operator parsers do, the parse of the six tokens has not
  returned.
\<close>

theorem ast_parse_addition_expr_never_returns:
  "ast_parse_addition_expr X n (parser_init tokens_1_plus_2_times_3) = None
   \<and> ast_parse_multiplication_expr X n (parser_init tokens_1_plus_2_times_3) = None"
  using tier_cycle_never_returns [of X n "parser_init tokens_1_plus_2_times_3"] by simp

end
